theory Spec2Isabelle
  imports Main "HOL-Library.AList" "HOL-Library.List_Lexorder" "HOL-Library.Char_ord"
begin

section \<open>Data model of package log\<close>

text \<open>
  The values a caller can pass in the variadic \<open>kvs ...interface{}\<close> of \<open>log\<close>. The type
  assertion \<open>kvs[i].(string)\<close> succeeds on \<open>VStr\<close> only. \<open>VChan\<close> stands for the dynamic
  types \<open>encoding/json\<close> refuses (channels, functions, complex numbers).
\<close>

datatype gvalue = VNil | VBool bool | VInt int | VStr string | VChan

text \<open>
  A \<open>time.Time\<close> as the civil date and time it prints as, with the zone offset in minutes
  east of UTC. The zero value \<open>time.Time{}\<close> is January 1 of year 1, 00:00:00 UTC.
\<close>

record gotime =
  tyear :: int
  tmonth :: nat
  tday :: nat
  thour :: nat
  tminute :: nat
  tsecond :: nat
  tnsec :: nat
  tzone :: int

definition zero_time :: gotime where
  "zero_time = \<lparr>tyear = 1, tmonth = 1, tday = 1, thour = 0, tminute = 0, tsecond = 0,
                tnsec = 0, tzone = 0\<rparr>"

text \<open>
  \<open>type Entry struct\<close>. \<open>Data\<close> is a Go map: an association list with one pair per key,
  written with \<open>AList.update\<close> and \<open>AList.delete\<close> and read through \<open>map_of\<close>. Every entry
  comes from the pool's \<open>New\<close>, which allocates the map, so \<open>Data\<close> is never nil.
\<close>

record Entry =
  Time :: gotime
  Level :: string
  Message :: string
  Data :: "(string \<times> gvalue) list"

text \<open>\<open>entryPool.New\<close>: \<open>&Entry{Data: make(map[string]interface{})}\<close>.\<close>

definition new_entry :: Entry where
  "new_entry = \<lparr>Time = zero_time, Level = [], Message = [], Data = []\<rparr>"

text \<open>
  \<open>resetEntry\<close>: the three assignments, then the loop \<open>for k := range e.Data\<close> that
  deletes every key it visits.
\<close>

definition resetEntry :: "Entry \<Rightarrow> Entry" where
  "resetEntry e =
     e\<lparr>Time := zero_time, Level := [], Message := [],
       Data := fold AList.delete (map fst (Data e)) (Data e)\<rparr>"

text \<open>
  The loop of \<open>log\<close> over \<open>kvs\<close> (\<open>for i := 0; i < len(kvs); i += 2\<close>): with two elements
  left the pair is looked at, and stored when its first element is a string; with one
  element left \<open>i+1 < len(kvs)\<close> fails and the loop ends after it.
\<close>

fun record_kvs :: "gvalue list \<Rightarrow> (string \<times> gvalue) list \<Rightarrow> (string \<times> gvalue) list" where
  "record_kvs (k # v # rest) d =
     record_kvs rest (case k of VStr key \<Rightarrow> AList.update key v d | _ \<Rightarrow> d)"
| "record_kvs [x] d = d"
| "record_kvs [] d = d"

text \<open>
  Lines 155 to 168 of \<open>log\<close>: the entry \<open>e0\<close> taken from the pool is reset, stamped with
  \<open>time.Now()\<close> (the argument \<open>now\<close>), given level and message, and filled from \<open>kvs\<close>.
\<close>

definition log_build :: "Entry \<Rightarrow> gotime \<Rightarrow> string \<Rightarrow> string \<Rightarrow> gvalue list \<Rightarrow> Entry" where
  "log_build e0 now level msg kvs =
     (let e = resetEntry e0;
          e = e\<lparr>Time := now, Level := level, Message := msg\<rparr>
      in e\<lparr>Data := record_kvs kvs (Data e)\<rparr>)"

section \<open>Serialization: \<open>json.Marshal\<close> of an entry\<close>

datatype error = ErrShortWrite | ErrSink string | ErrUnsupportedType | ErrYearRange

definition dquote :: char where "dquote = CHR 0x22"
definition bslash :: char where "bslash = CHR 0x5C"
definition newline :: char where "newline = CHR 0x0A"

definition hex :: string where "hex = ''0123456789abcdef''"

text \<open>
  The encoder's treatment of one byte below \<open>0x80\<close>, with HTML escaping on, as
  \<open>json.Marshal\<close> has it: quote and backslash get a backslash, the five control characters
  with a short form use it, the other control characters and \<open><\<close>, \<open>>\<close>, \<open>&\<close> become
  \<open>\u00XX\<close>, and every other byte is copied.
\<close>

definition esc_ascii :: "char \<Rightarrow> string" where
  "esc_ascii c =
     (if c = dquote \<or> c = bslash then [bslash, c]
      else if c = CHR 0x08 then [bslash, CHR ''b'']
      else if c = CHR 0x0C then [bslash, CHR ''f'']
      else if c = CHR 0x0A then [bslash, CHR ''n'']
      else if c = CHR 0x0D then [bslash, CHR ''r'']
      else if c = CHR 0x09 then [bslash, CHR ''t'']
      else if of_char c < (0x20::nat) \<or> c = CHR ''<'' \<or> c = CHR ''>'' \<or> c = CHR ''&''
        then [bslash, CHR ''u'', CHR ''0'', CHR ''0'',
              hex ! (of_char c div 16), hex ! (of_char c mod 16)]
      else [c])"

definition cont :: "char \<Rightarrow> bool" where
  "cont c = (0x80 \<le> (of_char c :: nat) \<and> (of_char c :: nat) \<le> 0xBF)"

text \<open>
  \<open>utf8.DecodeRune\<close> on a string whose first byte is \<open>0x80\<close> or more: the number of bytes
  of the well-formed encoding at its head, or 0 when there is none (the decoder then
  answers \<open>RuneError\<close> with width 1).
\<close>

fun utf8_size :: "string \<Rightarrow> nat" where
  "utf8_size (b0 # b1 # rest) =
     (let x = (of_char b0 :: nat); y = (of_char b1 :: nat) in
      if 0xC2 \<le> x \<and> x \<le> 0xDF then (if cont b1 then 2 else 0)
      else if 0xE0 \<le> x \<and> x \<le> 0xEF then
        (if (if x = 0xE0 then 0xA0 \<le> y \<and> y \<le> 0xBF
             else if x = 0xED then 0x80 \<le> y \<and> y \<le> 0x9F else cont b1)
            \<and> (case rest of b2 # _ \<Rightarrow> cont b2 | [] \<Rightarrow> False)
         then 3 else 0)
      else if 0xF0 \<le> x \<and> x \<le> 0xF4 then
        (if (if x = 0xF0 then 0x90 \<le> y \<and> y \<le> 0xBF
             else if x = 0xF4 then 0x80 \<le> y \<and> y \<le> 0x8F else cont b1)
            \<and> (case rest of b2 # b3 # _ \<Rightarrow> cont b2 \<and> cont b3 | _ \<Rightarrow> False)
         then 4 else 0)
      else 0)"
| "utf8_size [b0] = 0"
| "utf8_size [] = 0"

text \<open>
  The body of an encoded string (\<open>appendString\<close> without its two quotes). Bytes that are not
  well-formed UTF-8 become the escape of U+FFFD, the line and paragraph separators U+2028 and U+2029
  are escaped, and every other multi-byte character is copied.
\<close>

function esc_bytes :: "string \<Rightarrow> string" where
  "esc_bytes [] = []"
| "esc_bytes (c # cs) =
     (if of_char c < (0x80::nat) then esc_ascii c @ esc_bytes cs
      else
        (let n = utf8_size (c # cs) in
         if n = 0 then [bslash] @ ''ufffd'' @ esc_bytes cs
         else if take 3 (c # cs) = [CHR 0xE2, CHR 0x80, CHR 0xA8]
           then [bslash] @ ''u2028'' @ esc_bytes (drop 2 cs)
         else if take 3 (c # cs) = [CHR 0xE2, CHR 0x80, CHR 0xA9]
           then [bslash] @ ''u2029'' @ esc_bytes (drop 2 cs)
         else take n (c # cs) @ esc_bytes (drop (n - 1) cs)))"
  by pat_completeness auto
termination
  by (relation "measure length") auto

definition json_string :: "string \<Rightarrow> string" where
  "json_string s = dquote # esc_bytes s @ [dquote]"

subsection \<open>Numbers and times\<close>

definition digit :: "nat \<Rightarrow> char" where
  "digit d = ''0123456789'' ! d"

fun dec_nat :: "nat \<Rightarrow> string" where
  "dec_nat n = (if n < 10 then [digit n] else dec_nat (n div 10) @ [digit (n mod 10)])"

definition dec_int :: "int \<Rightarrow> string" where
  "dec_int i = (if i < 0 then CHR ''-'' # dec_nat (nat (- i)) else dec_nat (nat i))"

definition pad2 :: "nat \<Rightarrow> string" where
  "pad2 n = [digit (n div 10 mod 10), digit (n mod 10)]"

definition pad4 :: "nat \<Rightarrow> string" where
  "pad4 n = pad2 (n div 100) @ pad2 n"

definition pad9 :: "nat \<Rightarrow> string" where
  "pad9 n = [digit (n div 100000000 mod 10)] @ pad4 (n div 10000 mod 10000) @ pad4 n"

text \<open>
  The layout \<open>RFC3339Nano\<close>: the fraction is dropped when it is zero and loses its trailing
  zeros otherwise; the zone is \<open>Z\<close> at offset zero and \<open>+hh:mm\<close> or \<open>-hh:mm\<close> elsewhere.
\<close>

definition fmt_frac :: "nat \<Rightarrow> string" where
  "fmt_frac ns =
     (if ns = 0 then []
      else CHR ''.'' # rev (dropWhile (\<lambda>c. c = CHR ''0'') (rev (pad9 ns))))"

definition fmt_zone :: "int \<Rightarrow> string" where
  "fmt_zone z =
     (if z = 0 then ''Z''
      else (if z < 0 then CHR ''-'' else CHR ''+'')
           # pad2 (nat \<bar>z\<bar> div 60) @ '':'' @ pad2 (nat \<bar>z\<bar> mod 60))"

definition fmt_time :: "gotime \<Rightarrow> string" where
  "fmt_time t =
     pad4 (nat (tyear t)) @ ''-'' @ pad2 (tmonth t) @ ''-'' @ pad2 (tday t) @ ''T''
     @ pad2 (thour t) @ '':'' @ pad2 (tminute t) @ '':'' @ pad2 (tsecond t)
     @ fmt_frac (tnsec t) @ fmt_zone (tzone t)"

text \<open>\<open>Time.MarshalJSON\<close> refuses a year outside 0 .. 9999.\<close>

definition marshal_time :: "gotime \<Rightarrow> error + string" where
  "marshal_time t =
     (if tyear t < 0 \<or> 9999 < tyear t then Inl ErrYearRange
      else Inr (dquote # fmt_time t @ [dquote]))"

subsection \<open>Values, maps and the entry\<close>

fun marshal_value :: "gvalue \<Rightarrow> error + string" where
  "marshal_value VNil = Inr ''null''"
| "marshal_value (VBool b) = Inr (if b then ''true'' else ''false'')"
| "marshal_value (VInt i) = Inr (dec_int i)"
| "marshal_value (VStr s) = Inr (json_string s)"
| "marshal_value VChan = Inl ErrUnsupportedType"

text \<open>
  The members of an encoded map, in the order given, separated by commas; the first value
  that cannot be encoded ends the encoding with its error.
\<close>

fun marshal_members :: "(string \<times> gvalue) list \<Rightarrow> error + string" where
  "marshal_members [] = Inr []"
| "marshal_members ((k, v) # kvs) =
     (case marshal_value v of
        Inl e \<Rightarrow> Inl e
      | Inr sv \<Rightarrow>
          (case marshal_members kvs of
             Inl e \<Rightarrow> Inl e
           | Inr rest \<Rightarrow>
               Inr (json_string k @ '':'' @ sv @ (if kvs = [] then [] else '','' @ rest))))"

text \<open>A map is encoded with its keys sorted.\<close>

definition marshal_map :: "(string \<times> gvalue) list \<Rightarrow> error + string" where
  "marshal_map d =
     (case marshal_members (sort_key fst d) of
        Inl e \<Rightarrow> Inl e
      | Inr ms \<Rightarrow> Inr (''{'' @ ms @ ''}''))"

text \<open>
  \<open>json.Marshal(entry)\<close>: the four tagged fields of \<open>Entry\<close> in declaration order, as one
  compact object.
\<close>

definition marshal :: "Entry \<Rightarrow> error + string" where
  "marshal e =
     (case marshal_time (Time e) of
        Inl err \<Rightarrow> Inl err
      | Inr st \<Rightarrow>
          (case marshal_map (Data e) of
             Inl err \<Rightarrow> Inl err
           | Inr sd \<Rightarrow>
               Inr (''{'' @ json_string ''time'' @ '':'' @ st
                    @ '','' @ json_string ''level'' @ '':'' @ json_string (Level e)
                    @ '','' @ json_string ''message'' @ '':'' @ json_string (Message e)
                    @ '','' @ json_string ''data'' @ '':'' @ sd @ ''}'')))"

section \<open>The buffered writer over the sink\<close>

definition defaultBufferSize :: nat where "defaultBufferSize = 256 * 1024"
definition maxEntrySize :: nat where "maxEntrySize = 1024 * 1024"

text \<open>
  The sink is the \<open>io.Writer\<close> handed to \<open>NewLogger\<close>. Its behaviour is a function of the
  bytes it has accepted so far and the bytes offered: how many of them it accepts, and its
  error. \<open>bytes.Buffer\<close> is \<open>\<lambda>out p. (length p, None)\<close>.
\<close>

type_synonym sink = "string \<Rightarrow> string \<Rightarrow> nat \<times> error option"

text \<open>
  \<open>bufio.Writer\<close> of fixed size \<open>defaultBufferSize\<close>: the buffered bytes \<open>buf[0:n]\<close>, the
  sticky error \<open>err\<close>, and the bytes the sink \<open>wr\<close> has accepted.
\<close>

record bufio_Writer =
  buf :: string
  werr :: "error option"
  wr_out :: string

definition new_Writer :: bufio_Writer where
  "new_Writer = \<lparr>buf = [], werr = None, wr_out = []\<rparr>"

text \<open>
  One call \<open>b.wr.Write(p)\<close>. The sink keeps the contract of \<open>io.Writer\<close>: it accepts at most
  \<open>len(p)\<close> bytes and reports an error when it accepts fewer.
\<close>

definition sink_Write :: "sink \<Rightarrow> bufio_Writer \<Rightarrow> string \<Rightarrow> bufio_Writer \<times> nat \<times> error option" where
  "sink_Write snk w p =
     (let (n0, e0) = snk (wr_out w) p;
          n = min n0 (length p);
          e = (if n < length p \<and> e0 = None then Some ErrShortWrite else e0)
      in (w\<lparr>wr_out := wr_out w @ take n p\<rparr>, n, e))"

definition Available :: "bufio_Writer \<Rightarrow> nat" where
  "Available w = defaultBufferSize - length (buf w)"

definition bw_Flush :: "sink \<Rightarrow> bufio_Writer \<Rightarrow> bufio_Writer \<times> error option" where
  "bw_Flush snk w =
     (if werr w \<noteq> None then (w, werr w)
      else if buf w = [] then (w, None)
      else
        (let (w1, n, e) = sink_Write snk w (buf w) in
         if e \<noteq> None then (w1\<lparr>buf := drop n (buf w), werr := e\<rparr>, e)
         else (w1\<lparr>buf := []\<rparr>, None)))"

lemma sink_Write_all: "sink_Write snk w p = (w1, n, None) \<Longrightarrow> n = length p"
  by (auto simp: sink_Write_def Let_def split: prod.splits if_splits)

lemma bw_Flush_clean: "bw_Flush snk w = (w1, e) \<Longrightarrow> werr w = None \<Longrightarrow> werr w1 = None \<Longrightarrow> buf w1 = []"
  by (auto simp: bw_Flush_def Let_def split: prod.splits if_splits)

text \<open>
  \<open>(*Writer).Write\<close>, whose loop runs while \<open>p\<close> does not fit and no error is recorded: with
  an empty buffer \<open>p\<close> goes to the sink directly, otherwise the buffer is filled up from \<open>p\<close>
  and flushed. The byte count it returns is dropped by its only caller and left out.
\<close>

function bw_Write :: "sink \<Rightarrow> bufio_Writer \<Rightarrow> string \<Rightarrow> bufio_Writer \<times> error option" where
  "bw_Write snk w p =
     (if Available w < length p \<and> werr w = None then
        (if buf w = [] then
           (let (w1, n, e) = sink_Write snk w p
            in bw_Write snk (w1\<lparr>werr := e\<rparr>) (drop n p))
         else
           (let n = Available w;
                (w1, e) = bw_Flush snk (w\<lparr>buf := buf w @ take n p\<rparr>)
            in bw_Write snk w1 (drop n p)))
      else if werr w \<noteq> None then (w, werr w)
      else (w\<lparr>buf := buf w @ p\<rparr>, None))"
  by pat_completeness auto
termination
proof (relation "measures [\<lambda>(snk, w, p). if werr w = None then 1 else 0,
                           \<lambda>(snk, w, p). length p,
                           \<lambda>(snk, w, p). if buf w = [] then 0 else 1]", goal_cases)
  case 1
  then show ?case by simp
next
  case (2 snk w p x w1 y n e)
  then show ?case
    using sink_Write_all [OF sym, of w1 n snk w p]
    by (cases e) auto
next
  case (3 snk w p n x w1 e)
  then show ?case
    using bw_Flush_clean [OF sym, of w1 e snk "w\<lparr>buf := buf w @ take n p\<rparr>"]
    by (cases "werr w1") auto
qed

declare bw_Write.simps [simp del]

definition bw_WriteByte :: "sink \<Rightarrow> bufio_Writer \<Rightarrow> char \<Rightarrow> bufio_Writer \<times> error option" where
  "bw_WriteByte snk w c =
     (if werr w \<noteq> None then (w, werr w)
      else if Available w \<le> 0 then
        (let (w1, e) = bw_Flush snk w in
         if e \<noteq> None then (w1, werr w1) else (w1\<lparr>buf := buf w1 @ [c]\<rparr>, None))
      else (w\<lparr>buf := buf w @ [c]\<rparr>, None))"

section \<open>The logger and its goroutines\<close>

text \<open>What \<open>writeBatch\<close> prints on standard error, one constructor per \<open>Fprintf\<close>.\<close>

datatype diag =
  MarshalFailed error | TooLarge nat | FlushFailed error | WriteFailed error
  | NewlineFailed error

text \<open>
  A call of \<open>log\<close> and where it stands: not begun; entry built (line 170 is next); flag read
  as open (line 171 is next); enqueued (line 172 is next); flag read as closed (line 174 is
  next); returned after \<open>wg.Add(1)\<close>; returned after \<open>entryPool.Put\<close>.
\<close>

datatype pstate =
  P_call string string "gvalue list"
  | P_built Entry
  | P_open Entry
  | P_enqueued
  | P_closed Entry
  | P_accepted
  | P_dropped

text \<open>
  A worker running \<open>processLogs\<close>: at the \<open>select\<close>; after a failed \<open>Dequeue\<close>; after reading
  the flag as closed; about to call \<open>writeBatch\<close> (and return afterwards when the flag is
  \<open>True\<close>); returned.
\<close>

datatype wpc = W_select | W_empty | W_saw_closed | W_write bool | W_exited

text \<open>
  A call of \<open>Close\<close>: not begun; in \<open>wg.Wait()\<close>; about to take \<open>mu\<close> and flush; returned
  from line 148 with the flush's error; returned \<open>nil\<close> from line 150.
\<close>

datatype cstate = C_call | C_wait | C_lock | C_flushed "error option" | C_nil

text \<open>
  The fields of \<open>Logger\<close> (\<open>closed\<close> holds 0 or 1 only and is a \<open>bool\<close>; \<open>wg\<close> is the counter of
  the wait group; \<open>mu\<close> has no field, see \<open>fire\<close>), the package's \<open>entryPool\<close>, standard
  error, and the goroutines: the calls of \<open>log\<close> and \<open>Close\<close> and the workers with their
  local batches. \<open>panicked\<close> records that a goroutine panicked, which ends the process.
\<close>

record state =
  writer :: bufio_Writer
  queue :: "Entry list"
  wg :: int
  closed :: bool
  batchSize :: nat
  entryPool :: "Entry list"
  stderr :: "diag list"
  producers :: "pstate list"
  workers :: "(wpc \<times> Entry list) list"
  closers :: "cstate list"
  panicked :: bool

text \<open>
  \<open>NewLogger\<close> with \<open>ncpu\<close> workers started, in a process whose pool holds \<open>pool0\<close>, together
  with the calls of \<open>log\<close> and of \<open>Close\<close> that will be made on the logger.
\<close>

definition NewLogger :: "nat \<Rightarrow> Entry list \<Rightarrow> (string \<times> string \<times> gvalue list) list \<Rightarrow> nat \<Rightarrow> state" where
  "NewLogger ncpu pool0 calls ncloses =
     \<lparr>writer = new_Writer, queue = [], wg = 0, closed = False, batchSize = 100,
      entryPool = pool0, stderr = [],
      producers = map (\<lambda>(level, msg, kvs). P_call level msg kvs) calls,
      workers = replicate ncpu (W_select, []),
      closers = replicate ncloses C_call,
      panicked = False\<rparr>"

text \<open>
  \<open>wg.Add(delta)\<close>: the counter is an \<open>int32\<close>, and \<open>Add\<close> panics when it reads negative
  after the addition.
\<close>

definition wg_Add :: "int \<Rightarrow> state \<Rightarrow> state" where
  "wg_Add delta s =
     (let v = wg s + delta in
      if v < 0 \<or> 2 ^ 31 \<le> v then s\<lparr>panicked := True\<rparr> else s\<lparr>wg := v\<rparr>)"

text \<open>The guard \<open>err != nil && err != io.ErrShortWrite\<close> before each report.\<close>

definition report :: "(error \<Rightarrow> diag) \<Rightarrow> error option \<Rightarrow> state \<Rightarrow> state" where
  "report mk err s =
     (case err of
        None \<Rightarrow> s
      | Some e \<Rightarrow> if e = ErrShortWrite then s else s\<lparr>stderr := stderr s @ [mk e]\<rparr>)"

text \<open>The body of the loop of \<open>writeBatch\<close> for one entry.\<close>

definition writeBatch_entry :: "sink \<Rightarrow> Entry \<Rightarrow> state \<Rightarrow> state" where
  "writeBatch_entry snk entry s =
     (case marshal entry of
        Inl err \<Rightarrow> s\<lparr>stderr := stderr s @ [MarshalFailed err]\<rparr>
      | Inr data \<Rightarrow>
          if maxEntrySize < length data then s\<lparr>stderr := stderr s @ [TooLarge (length data)]\<rparr>
          else
            (let s1 = (if Available (writer s) < length data + 1
                       then (let (w, err) = bw_Flush snk (writer s)
                             in report FlushFailed err (s\<lparr>writer := w\<rparr>))
                       else s);
                 (w2, err2) = bw_Write snk (writer s1) data;
                 s2 = report WriteFailed err2 (s1\<lparr>writer := w2\<rparr>);
                 (w3, err3) = bw_WriteByte snk (writer s2) newline;
                 s3 = report NewlineFailed err3 (s2\<lparr>writer := w3\<rparr>)
             in s3\<lparr>entryPool := entryPool s3 @ [resetEntry entry]\<rparr>))"

text \<open>
  \<open>writeBatch\<close>, run under \<open>mu\<close> from its first buffer access to its return: the loop, the
  flush after it, and \<open>l.wg.Add(-len(batch))\<close>.
\<close>

definition writeBatch :: "sink \<Rightarrow> Entry list \<Rightarrow> state \<Rightarrow> state" where
  "writeBatch snk batch s =
     (if batch = [] then s
      else
        (let s1 = fold (writeBatch_entry snk) batch s;
             (w, err) = bw_Flush snk (writer s1);
             s2 = report FlushFailed err (s1\<lparr>writer := w\<rparr>)
         in wg_Add (- int (length batch)) s2))"

subsection \<open>Steps of the goroutines\<close>

text \<open>
  One action is one access of a goroutine to what it shares with the others. \<open>LogGet\<close> is
  \<open>entryPool.Get()\<close> with the local lines up to 168: the pool hands out one of its entries
  (\<open>Some k\<close>, the \<open>k\<close>-th) or calls \<open>New\<close> (\<open>None\<close>), and the clock reads \<open>now\<close>. \<open>Tick\<close> is the
  \<open>select\<close> taking the ticker's case, \<open>Dequeue\<close> its default case. \<open>WriteBatch\<close> and
  \<open>CloseFlush\<close> are the two sections that hold \<open>mu\<close>.
\<close>

datatype action =
  LogGet nat "nat option" gotime
  | LogLoad nat
  | LogEnqueue nat
  | LogAdd nat
  | LogPut nat
  | Tick nat
  | Dequeue nat
  | LoadClosed nat
  | GetLen nat
  | WriteBatch nat
  | CloseCAS nat
  | CloseWait nat
  | CloseFlush nat

definition pool_Get :: "nat option \<Rightarrow> Entry list \<Rightarrow> (Entry \<times> Entry list) option" where
  "pool_Get slot pool =
     (case slot of
        None \<Rightarrow> Some (new_entry, pool)
      | Some k \<Rightarrow>
          if k < length pool then Some (pool ! k, take k pool @ drop (Suc k) pool) else None)"

definition producer_at :: "state \<Rightarrow> nat \<Rightarrow> pstate option" where
  "producer_at s i = (if i < length (producers s) then Some (producers s ! i) else None)"

definition worker_at :: "state \<Rightarrow> nat \<Rightarrow> (wpc \<times> Entry list) option" where
  "worker_at s i = (if i < length (workers s) then Some (workers s ! i) else None)"

definition closer_at :: "state \<Rightarrow> nat \<Rightarrow> cstate option" where
  "closer_at s i = (if i < length (closers s) then Some (closers s ! i) else None)"

definition set_producer :: "nat \<Rightarrow> pstate \<Rightarrow> state \<Rightarrow> state" where
  "set_producer i p s = s\<lparr>producers := (producers s)[i := p]\<rparr>"

definition set_worker :: "nat \<Rightarrow> wpc \<times> Entry list \<Rightarrow> state \<Rightarrow> state" where
  "set_worker i w s = s\<lparr>workers := (workers s)[i := w]\<rparr>"

definition set_closer :: "nat \<Rightarrow> cstate \<Rightarrow> state \<Rightarrow> state" where
  "set_closer i c s = s\<lparr>closers := (closers s)[i := c]\<rparr>"

text \<open>
  What an action does, and \<open>None\<close> when the goroutine is not at that point of its code or
  cannot go on (\<open>wg.Wait()\<close> with a counter that is not zero).
\<close>

fun act :: "sink \<Rightarrow> action \<Rightarrow> state \<Rightarrow> state option" where
  "act snk (LogGet i slot now) s =
     (case producer_at s i of
        Some (P_call level msg kvs) \<Rightarrow>
          (case pool_Get slot (entryPool s) of
             Some (e0, pool') \<Rightarrow>
               Some (set_producer i (P_built (log_build e0 now level msg kvs))
                       (s\<lparr>entryPool := pool'\<rparr>))
           | None \<Rightarrow> None)
      | _ \<Rightarrow> None)"
| "act snk (LogLoad i) s =
     (case producer_at s i of
        Some (P_built e) \<Rightarrow> Some (set_producer i (if closed s then P_closed e else P_open e) s)
      | _ \<Rightarrow> None)"
| "act snk (LogEnqueue i) s =
     (case producer_at s i of
        Some (P_open e) \<Rightarrow> Some (set_producer i P_enqueued (s\<lparr>queue := queue s @ [e]\<rparr>))
      | _ \<Rightarrow> None)"
| "act snk (LogAdd i) s =
     (case producer_at s i of
        Some P_enqueued \<Rightarrow> Some (set_producer i P_accepted (wg_Add 1 s))
      | _ \<Rightarrow> None)"
| "act snk (LogPut i) s =
     (case producer_at s i of
        Some (P_closed e) \<Rightarrow> Some (set_producer i P_dropped (s\<lparr>entryPool := entryPool s @ [e]\<rparr>))
      | _ \<Rightarrow> None)"
| "act snk (Tick i) s =
     (case worker_at s i of
        Some (W_select, batch) \<Rightarrow> Some (set_worker i (W_write False, batch) s)
      | _ \<Rightarrow> None)"
| "act snk (Dequeue i) s =
     (case worker_at s i of
        Some (W_select, batch) \<Rightarrow>
          (case queue s of
             [] \<Rightarrow> Some (set_worker i (W_empty, batch) s)
           | entry # q \<Rightarrow>
               Some (set_worker i
                       (if batchSize s \<le> length (batch @ [entry]) then W_write False else W_select,
                        batch @ [entry])
                       (s\<lparr>queue := q\<rparr>)))
      | _ \<Rightarrow> None)"
| "act snk (LoadClosed i) s =
     (case worker_at s i of
        Some (W_empty, batch) \<Rightarrow>
          Some (set_worker i (if closed s then W_saw_closed else W_select, batch) s)
      | _ \<Rightarrow> None)"
| "act snk (GetLen i) s =
     (case worker_at s i of
        Some (W_saw_closed, batch) \<Rightarrow>
          Some (set_worker i (if queue s = [] then W_write True else W_select, batch) s)
      | _ \<Rightarrow> None)"
| "act snk (WriteBatch i) s =
     (case worker_at s i of
        Some (W_write final, batch) \<Rightarrow>
          Some (set_worker i (if final then W_exited else W_select, [])
                  (writeBatch snk batch s))
      | _ \<Rightarrow> None)"
| "act snk (CloseCAS i) s =
     (case closer_at s i of
        Some C_call \<Rightarrow>
          Some (if closed s then set_closer i C_nil s
                else set_closer i C_wait (s\<lparr>closed := True\<rparr>))
      | _ \<Rightarrow> None)"
| "act snk (CloseWait i) s =
     (case closer_at s i of
        Some C_wait \<Rightarrow> if wg s = 0 then Some (set_closer i C_lock s) else None
      | _ \<Rightarrow> None)"
| "act snk (CloseFlush i) s =
     (case closer_at s i of
        Some C_lock \<Rightarrow>
          (let (w, err) = bw_Flush snk (writer s)
           in Some (set_closer i (C_flushed err) (s\<lparr>writer := w\<rparr>)))
      | _ \<Rightarrow> None)"

text \<open>After a panic the process is gone and nothing runs.\<close>

definition fire :: "sink \<Rightarrow> action \<Rightarrow> state \<Rightarrow> state option" where
  "fire snk a s = (if panicked s then None else act snk a s)"

fun run :: "sink \<Rightarrow> action list \<Rightarrow> state \<Rightarrow> state option" where
  "run snk [] s = Some s"
| "run snk (a # as) s = (case fire snk a s of None \<Rightarrow> None | Some s' \<Rightarrow> run snk as s')"

section \<open>Notions of the specification\<close>

text \<open>
  The walk of \<open>kvs\<close> two elements at a time, in the specification's words: the \<open>i\<close>-th pair,
  when both of its positions exist.
\<close>

definition pair_at :: "gvalue list \<Rightarrow> nat \<Rightarrow> (gvalue \<times> gvalue) option" where
  "pair_at kvs i =
     (if 2 * i + 1 < length kvs then Some (kvs ! (2 * i), kvs ! (2 * i + 1)) else None)"

text \<open>
  \<open>key\<close> is recorded with value \<open>v\<close>: some complete pair has the string \<open>key\<close> first and \<open>v\<close>
  second, and no later complete pair has the same string first (a later assignment to the
  same key of a map replaces the earlier one).
\<close>

definition recorded :: "gvalue list \<Rightarrow> string \<Rightarrow> gvalue \<Rightarrow> bool" where
  "recorded kvs key v =
     (\<exists>i. pair_at kvs i = Some (VStr key, v) \<and>
          (\<forall>j v'. i < j \<longrightarrow> pair_at kvs j \<noteq> Some (VStr key, v')))"

text \<open>A sink that takes every byte, as \<open>bytes.Buffer\<close> does, and a time of day.\<close>

definition buffer_sink :: sink where
  "buffer_sink = (\<lambda>out p. (length p, None))"

definition example_time :: gotime where
  "example_time = \<lparr>tyear = 2024, tmonth = 5, tday = 17, thour = 9, tminute = 30,
                   tsecond = 0, tnsec = 120000000, tzone = 480\<rparr>"




text \<open>
  The entries \<open>writeBatch\<close> skips, the line it writes for an entry, and its report on
  standard error for the entry.
\<close>

definition skipped :: "Entry \<Rightarrow> bool" where
  "skipped e = (case marshal e of Inl err \<Rightarrow> True | Inr data \<Rightarrow> maxEntrySize < length data)"

definition record_of :: "Entry \<Rightarrow> string" where
  "record_of e =
     (case marshal e of
        Inl err \<Rightarrow> []
      | Inr data \<Rightarrow> if maxEntrySize < length data then [] else data @ [newline])"


text \<open>
  The calls of \<open>Close\<close> whose compare-and-swap set the flag: they wait, flush and return
  from line 148.
\<close>

fun effective :: "cstate \<Rightarrow> bool" where
  "effective C_call = False"
| "effective C_wait = True"
| "effective C_lock = True"
| "effective (C_flushed err) = True"
| "effective C_nil = False"

text \<open>
  What a call of \<open>Close\<close> has returned, if it has: the error of its flush, or \<open>nil\<close>.
\<close>

fun close_result :: "cstate \<Rightarrow> error option option" where
  "close_result (C_flushed err) = Some err"
| "close_result C_nil = Some None"
| "close_result c = None"

text \<open>
  How many elements of a list satisfy a predicate.
\<close>

definition count :: "('a \<Rightarrow> bool) \<Rightarrow> 'a list \<Rightarrow> nat" where
  "count P xs = length (filter P xs)"



text \<open>
  While the flag is unset no call of \<open>Close\<close> has begun; once it is set exactly one call
  has taken effect.
\<close>

definition close_inv :: "state \<Rightarrow> bool" where
  "close_inv s =
     (count effective (closers s) = (if closed s then 1 else 0)
      \<and> (\<not> closed s \<longrightarrow> (\<forall>c \<in> set (closers s). c = C_call)))"

text \<open>
  A sink that accepts nothing, as a full disk does.
\<close>

definition full_sink :: sink where
  "full_sink = (\<lambda>out p. (0, Some (ErrSink ''disk full'')))"

text \<open>
  The points of a call of \<open>log\<close> from which it can no longer enqueue once the flag is set:
  before the flag is read, and on the branch that puts the entry back.
\<close>

fun dropping :: "pstate \<Rightarrow> bool" where
  "dropping (P_call level msg kvs) = True"
| "dropping (P_built e) = True"
| "dropping (P_closed e) = True"
| "dropping P_dropped = True"
| "dropping (P_open e) = False"
| "dropping P_enqueued = False"
| "dropping P_accepted = False"







section \<open>Reading an output line back\<close>

text \<open>
  The value of a hexadecimal digit.
\<close>

definition hexval :: "char \<Rightarrow> nat option" where
  "hexval c =
     (let n = (of_char c :: nat) in
      if 48 \<le> n \<and> n \<le> 57 then Some (n - 48)
      else if 97 \<le> n \<and> n \<le> 102 then Some (n - 87)
      else if 65 \<le> n \<and> n \<le> 70 then Some (n - 55)
      else None)"

text \<open>
  The UTF-8 encoding of a code point below \<open>0x10000\<close>.
\<close>

definition utf8_encode :: "nat \<Rightarrow> string" where
  "utf8_encode cp =
     (if cp < 0x80 then [char_of cp]
      else if cp < 0x800 then [char_of (0xC0 + cp div 64), char_of (0x80 + cp mod 64)]
      else [char_of (0xE0 + cp div 4096), char_of (0x80 + cp div 64 mod 64),
            char_of (0x80 + cp mod 64)])"

text \<open>
  The character a one-letter escape stands for.
\<close>

definition unescape :: "char \<Rightarrow> char option" where
  "unescape e =
     (if e = dquote \<or> e = bslash \<or> e = CHR ''/'' then Some e
      else if e = CHR ''b'' then Some (CHR 0x08)
      else if e = CHR ''f'' then Some (CHR 0x0C)
      else if e = CHR ''n'' then Some (CHR 0x0A)
      else if e = CHR ''r'' then Some (CHR 0x0D)
      else if e = CHR ''t'' then Some (CHR 0x09)
      else None)"

text \<open>
  A JSON string after its opening quote: the decoded text and what follows the closing
  quote. A control character, an unknown escape, a surrogate and a missing closing quote
  are refused.
\<close>

fun parse_str_body :: "string \<Rightarrow> (string \<times> string) option" where
  "parse_str_body [] = None"
| "parse_str_body (c # cs) =
     (if c = dquote then Some ([], cs)
      else if c = bslash then
        (case cs of
           [] \<Rightarrow> None
         | e # cs1 \<Rightarrow>
             if e = CHR ''u'' then
               (case cs1 of
                  h1 # h2 # h3 # h4 # cs2 \<Rightarrow>
                    (case (hexval h1, hexval h2, hexval h3, hexval h4) of
                       (Some a, Some b, Some c', Some d) \<Rightarrow>
                         (let cp = ((a * 16 + b) * 16 + c') * 16 + d in
                          if 0xD800 \<le> cp \<and> cp < 0xE000 then None
                          else map_option (\<lambda>(x, r). (utf8_encode cp @ x, r))
                                 (parse_str_body cs2))
                     | _ \<Rightarrow> None)
                | _ \<Rightarrow> None)
             else
               (case unescape e of
                  None \<Rightarrow> None
                | Some x \<Rightarrow> map_option (\<lambda>(s, r). (x # s, r)) (parse_str_body cs1)))
      else if of_char c < (0x20::nat) then None
      else map_option (\<lambda>(s, r). (c # s, r)) (parse_str_body cs))"

text \<open>
  Decimal digits and the number they spell.
\<close>

definition is_digit :: "char \<Rightarrow> bool" where
  "is_digit c = (48 \<le> (of_char c :: nat) \<and> (of_char c :: nat) \<le> 57)"

definition parse_nat :: "string \<Rightarrow> (nat \<times> string) option" where
  "parse_nat s =
     (let ds = takeWhile is_digit s in
      if ds = [] then None
      else Some (foldl (\<lambda>n c. n * 10 + (of_char c - 48)) 0 ds, dropWhile is_digit s))"

text \<open>
  A value that is not an object: a string, \<open>null\<close>, \<open>true\<close>, \<open>false\<close> or an integer.
\<close>

fun parse_scalar :: "string \<Rightarrow> (gvalue \<times> string) option" where
  "parse_scalar [] = None"
| "parse_scalar (c # r) =
     (if c = dquote then map_option (\<lambda>(x, r'). (VStr x, r')) (parse_str_body r)
      else if c = CHR ''n'' then (if take 3 r = ''ull'' then Some (VNil, drop 3 r) else None)
      else if c = CHR ''t'' then (if take 3 r = ''rue'' then Some (VBool True, drop 3 r) else None)
      else if c = CHR ''f'' then (if take 4 r = ''alse'' then Some (VBool False, drop 4 r) else None)
      else if c = CHR ''-'' then map_option (\<lambda>(n, r'). (VInt (- int n), r')) (parse_nat r)
      else map_option (\<lambda>(n, r'). (VInt (int n), r')) (parse_nat (c # r)))"

text \<open>
  The members of an object after its opening brace, up to and including the closing
  brace, each value read by \<open>pv\<close>. Every member takes at least one character, so the length
  of the input is enough fuel.
\<close>

fun members :: "(string \<Rightarrow> ('v \<times> string) option) \<Rightarrow> nat \<Rightarrow> string \<Rightarrow> ((string \<times> 'v) list \<times> string) option" where
  "members pv 0 s = None"
| "members pv (Suc n) s =
     (case s of
        [] \<Rightarrow> None
      | q # s1 \<Rightarrow>
          if q \<noteq> dquote then None
          else
            (case parse_str_body s1 of
               Some (k, c # s2) \<Rightarrow>
                 if c \<noteq> CHR '':'' then None
                 else
                   (case pv s2 of
                      Some (v, d # s3) \<Rightarrow>
                        if d = CHR ''}'' then Some ([(k, v)], s3)
                        else if d = CHR '','' then
                          map_option (\<lambda>(kvs, r). ((k, v) # kvs, r)) (members pv n s3)
                        else None
                    | _ \<Rightarrow> None)
             | _ \<Rightarrow> None))"

definition parse_object :: "(string \<Rightarrow> ('v \<times> string) option) \<Rightarrow> string \<Rightarrow> ((string \<times> 'v) list \<times> string) option" where
  "parse_object pv s =
     (case s of
        c # d # r \<Rightarrow>
          if c \<noteq> CHR ''{'' then None
          else if d = CHR ''}'' then Some ([], r)
          else members pv (length (d # r)) (d # r)
      | _ \<Rightarrow> None)"

text \<open>
  A field of the record: a scalar, or an object of scalars as the field \<open>data\<close> is.
\<close>

datatype jfield = Scalar gvalue | Object "(string \<times> gvalue) list"

definition parse_field :: "string \<Rightarrow> (jfield \<times> string) option" where
  "parse_field s =
     (case s of
        [] \<Rightarrow> None
      | c # r \<Rightarrow>
          if c = CHR ''{'' then map_option (\<lambda>(m, r'). (Object m, r')) (parse_object parse_scalar s)
          else map_option (\<lambda>(v, r'). (Scalar v, r')) (parse_scalar s))"

text \<open>
  One line of output read back: the fields of its object, and the mapping under \<open>data\<close>.
\<close>

definition parse_line :: "string \<Rightarrow> (string \<times> jfield) list option" where
  "parse_line s =
     (case parse_object parse_field s of
        Some (fs, r) \<Rightarrow> if r = [] \<or> r = [newline] then Some fs else None
      | None \<Rightarrow> None)"

definition data_of :: "(string \<times> jfield) list \<Rightarrow> (string \<times> gvalue) list option" where
  "data_of fs = (case map_of fs ''data'' of Some (Object m) \<Rightarrow> Some m | _ \<Rightarrow> None)"

text \<open>
  What a string reads back as after encoding: a byte that is not part of well-formed UTF-8
  has become U+FFFD, everything else is unchanged.
\<close>

function sanitize :: "string \<Rightarrow> string" where
  "sanitize [] = []"
| "sanitize (c # cs) =
     (if of_char c < (0x80::nat) then c # sanitize cs
      else
        (let n = utf8_size (c # cs) in
         if n = 0 then [CHR 0xEF, CHR 0xBF, CHR 0xBD] @ sanitize cs
         else take n (c # cs) @ sanitize (drop (n - 1) cs)))"
  by pat_completeness auto
termination
  by (relation "measure length") auto

text \<open>
  A character that stands for itself inside a JSON string.
\<close>

definition plain :: "char \<Rightarrow> bool" where
  "plain b = (b \<noteq> dquote \<and> b \<noteq> bslash \<and> (0x20::nat) \<le> of_char b)"


lemmas marshal_simps = marshal_def marshal_time_def marshal_map_def fmt_time_def fmt_frac_def fmt_zone_def
  pad2_def pad4_def pad9_def digit_def json_string_def esc_ascii_def dquote_def bslash_def hex_def
  example_time_def

lemmas step_simps =
  fire_def producer_at_def worker_at_def closer_at_def set_producer_def set_worker_def
  set_closer_def NewLogger_def pool_Get_def log_build_def resetEntry_def new_entry_def

section \<open>Resetting and populating an entry\<close>

lemma fold_delete_keys: "set (map fst d) \<subseteq> set ks \<Longrightarrow> fold AList.delete ks d = []"
proof (induction ks arbitrary: d)
  case Nil
  then show ?case by simp
next
  case (Cons k ks)
  have "set (map fst (AList.delete k d)) \<subseteq> set ks"
    using Cons.prems by (auto simp: AList.delete_eq)
  then show ?case using Cons.IH by simp
qed

lemma resetEntry_fields:
  "resetEntry e = \<lparr>Time = zero_time, Level = [], Message = [], Data = []\<rparr>"
  by (simp add: resetEntry_def fold_delete_keys)

lemma log_build_fields:
  "log_build e0 now level msg kvs =
     \<lparr>Time = now, Level = level, Message = msg, Data = record_kvs kvs []\<rparr>"
  by (simp add: log_build_def resetEntry_fields Let_def)

text \<open>
  C9. The entry \<open>log\<close> builds does not depend on the entry the pool handed out: whatever
  \<open>e0\<close> held before, the built entry has the time, level and message of this call and the
  mapping this call's \<open>kvs\<close> give on an empty map, and so it is the same for any two
  pooled entries.
\<close>

theorem log_independent_of_pooled_entry:
  "log_build e0 now level msg kvs =
     \<lparr>Time = now, Level = level, Message = msg, Data = record_kvs kvs []\<rparr>
   \<and> log_build e0 now level msg kvs = log_build e0' now level msg kvs"
  by (simp add: log_build_def resetEntry_fields Let_def)

subsection \<open>The walk over \<open>kvs\<close>\<close>

lemma pair_at_0: "pair_at (k # x # rest) 0 = Some (k, x)"
  by (simp add: pair_at_def)

lemma pair_at_Suc: "pair_at (k # x # rest) (Suc j) = pair_at rest j"
  by (simp add: pair_at_def)

lemma pair_at_short: "length kvs < 2 \<Longrightarrow> pair_at kvs i = None"
  by (simp add: pair_at_def)

lemma record_kvs_lookup:
  "map_of (record_kvs kvs d) key = Some v \<longleftrightarrow>
     recorded kvs key v
     \<or> ((\<forall>j v'. pair_at kvs j \<noteq> Some (VStr key, v')) \<and> map_of d key = Some v)"
proof (induction kvs d rule: record_kvs.induct)
  case (1 k x rest d)
  let ?d' = "case k of VStr key \<Rightarrow> AList.update key x d | _ \<Rightarrow> d"
  let ?kvs = "k # x # rest"
  let ?none = "\<lambda>kvs. \<forall>j v'. pair_at kvs j \<noteq> Some (VStr key, v')"
  have d': "map_of ?d' key = Some v \<longleftrightarrow>
              (k = VStr key \<and> x = v) \<or> (k \<noteq> VStr key \<and> map_of d key = Some v)"
    by (cases k) (auto simp: update_conv')
  have none: "?none ?kvs \<longleftrightarrow> k \<noteq> VStr key \<and> ?none rest"
  proof
    assume a: "?none ?kvs"
    have "k \<noteq> VStr key" using a pair_at_0 [of k x rest] by auto
    moreover have "?none rest" using a pair_at_Suc [of k x rest] by metis
    ultimately show "k \<noteq> VStr key \<and> ?none rest" by simp
  next
    assume a: "k \<noteq> VStr key \<and> ?none rest"
    show "?none ?kvs"
    proof (intro allI)
      fix j v'
      show "pair_at ?kvs j \<noteq> Some (VStr key, v')"
        using a by (cases j) (auto simp: pair_at_0 pair_at_Suc)
    qed
  qed
  have rec: "recorded ?kvs key v \<longleftrightarrow>
               (k = VStr key \<and> x = v \<and> ?none rest) \<or> recorded rest key v"
  proof
    assume "recorded ?kvs key v"
    then obtain i where i: "pair_at ?kvs i = Some (VStr key, v)"
      "\<forall>j v'. i < j \<longrightarrow> pair_at ?kvs j \<noteq> Some (VStr key, v')"
      by (auto simp: recorded_def)
    show "(k = VStr key \<and> x = v \<and> ?none rest) \<or> recorded rest key v"
    proof (cases i)
      case 0
      have "?none rest"
      proof (intro allI)
        fix j v'
        show "pair_at rest j \<noteq> Some (VStr key, v')"
          using i(2) 0 pair_at_Suc [of k x rest j] by (metis zero_less_Suc)
      qed
      then show ?thesis using i(1) 0 by (simp add: pair_at_0)
    next
      case (Suc i')
      have "pair_at rest i' = Some (VStr key, v)"
        using i(1) Suc by (simp add: pair_at_Suc)
      moreover have "\<forall>j v'. i' < j \<longrightarrow> pair_at rest j \<noteq> Some (VStr key, v')"
        using i(2) Suc pair_at_Suc [of k x rest] by (metis Suc_less_eq)
      ultimately show ?thesis by (auto simp: recorded_def)
    qed
  next
    assume a: "(k = VStr key \<and> x = v \<and> ?none rest) \<or> recorded rest key v"
    then show "recorded ?kvs key v"
    proof
      assume b: "k = VStr key \<and> x = v \<and> ?none rest"
      have "\<forall>j v'. 0 < j \<longrightarrow> pair_at ?kvs j \<noteq> Some (VStr key, v')"
      proof (intro allI impI)
        fix j v' assume "0 < (j::nat)"
        then obtain j' where "j = Suc j'" by (cases j) auto
        then show "pair_at ?kvs j \<noteq> Some (VStr key, v')"
          using b by (simp add: pair_at_Suc)
      qed
      then show ?thesis using b unfolding recorded_def
        by (intro exI [of _ 0]) (simp add: pair_at_0)
    next
      assume "recorded rest key v"
      then obtain i where i: "pair_at rest i = Some (VStr key, v)"
        "\<forall>j v'. i < j \<longrightarrow> pair_at rest j \<noteq> Some (VStr key, v')"
        by (auto simp: recorded_def)
      have "\<forall>j v'. Suc i < j \<longrightarrow> pair_at ?kvs j \<noteq> Some (VStr key, v')"
      proof (intro allI impI)
        fix j v' assume "Suc i < j"
        then obtain j' where "j = Suc j'" "i < j'" by (cases j) auto
        then show "pair_at ?kvs j \<noteq> Some (VStr key, v')"
          using i(2) by (simp add: pair_at_Suc)
      qed
      then show ?thesis using i(1) unfolding recorded_def
        by (intro exI [of _ "Suc i"]) (simp add: pair_at_Suc)
    qed
  qed
  have "map_of (record_kvs ?kvs d) key = Some v \<longleftrightarrow>
          recorded rest key v \<or> (?none rest \<and> map_of ?d' key = Some v)"
    using "1.IH" by simp
  also have "\<dots> \<longleftrightarrow> recorded ?kvs key v \<or> (?none ?kvs \<and> map_of d key = Some v)"
    unfolding d' none rec by blast
  finally show ?case .
next
  case (2 x d)
  then show ?case by (simp add: recorded_def pair_at_short)
next
  case (3 d)
  then show ?case by (simp add: recorded_def pair_at_short)
qed

lemma record_kvs_distinct: "distinct (map fst d) \<Longrightarrow> distinct (map fst (record_kvs kvs d))"
  by (induction kvs d rule: record_kvs.induct) (auto simp: distinct_update split: gvalue.splits)

text \<open>
  C6. The mapping of the entry \<open>log\<close> builds holds \<open>key\<close> with value \<open>v\<close> exactly when \<open>kvs\<close>,
  walked two at a time, has a complete pair with the string \<open>key\<close> first and \<open>v\<close> second
  that no later such pair overwrites; a trailing single element and pairs whose first
  element is not a string add nothing and stop nothing. The mapping has each key once.
\<close>

theorem log_records_string_pairs:
  "(map_of (Data (log_build e0 now level msg kvs)) key = Some v \<longleftrightarrow> recorded kvs key v)
   \<and> distinct (map fst (Data (log_build e0 now level msg kvs)))"
  using record_kvs_lookup [of kvs "[]" key v] record_kvs_distinct [of "[]" kvs]
  by (simp add: log_build_fields)

theorem log_records_string_pairs_witness:
  "map_of (Data (log_build new_entry zero_time ''info'' ''m''
      [VStr ''a'', VInt 1, VInt 7, VStr ''x'', VStr ''b'', VBool True, VStr ''c''])) ''b''
     = Some (VBool True)
   \<and> recorded [VStr ''a'', VInt 1, VInt 7, VStr ''x'', VStr ''b'', VBool True, VStr ''c'']
        ''b'' (VBool True)
   \<and> map_of (Data (log_build new_entry zero_time ''info'' ''m''
      [VStr ''a'', VInt 1, VInt 7, VStr ''x'', VStr ''b'', VBool True, VStr ''c''])) ''c''
     = None"
proof -
  let ?kvs = "[VStr ''a'', VInt 1, VInt 7, VStr ''x'', VStr ''b'', VBool True, VStr ''c'']"
  have l: "map_of (Data (log_build new_entry zero_time ''info'' ''m'' ?kvs)) ''b''
             = Some (VBool True)"
    by (simp add: log_build_def resetEntry_def new_entry_def)
  have r: "recorded ?kvs ''b'' (VBool True)"
    using log_records_string_pairs
            [of new_entry zero_time "''info''" "''m''" ?kvs "''b''" "VBool True"] l
    by blast
  have n: "map_of (Data (log_build new_entry zero_time ''info'' ''m'' ?kvs)) ''c'' = None"
    by (simp add: log_build_def resetEntry_def new_entry_def)
  show ?thesis using l r n by blast
qed

section \<open>Entries that reach the pool\<close>

text \<open>
  C3. A call of \<open>log\<close> on a closed logger puts its entry into the pool as it built it:
  after \<open>Close\<close> has returned, \<open>log("info", "late", "k", "v")\<close> leaves in the pool an entry
  that still holds the time, the level, the message and the pair of that call.
\<close>

theorem closed_log_puts_populated_entry:
  "run buffer_sink
     [CloseCAS 0, CloseWait 0, CloseFlush 0, LogGet 0 None example_time, LogLoad 0, LogPut 0]
     (NewLogger 1 [] [(''info'', ''late'', [VStr ''k'', VStr ''v''])] 1)
   = Some \<lparr>writer = new_Writer, queue = [], wg = 0, closed = True, batchSize = 100,
           entryPool = [\<lparr>Time = example_time, Level = ''info'', Message = ''late'',
                         Data = [(''k'', VStr ''v'')]\<rparr>],
           stderr = [], producers = [P_dropped], workers = [(W_select, [])],
           closers = [C_flushed None], panicked = False\<rparr>"
  by (simp add: step_simps bw_Flush_def new_Writer_def)

text \<open>
  C2. An entry that \<open>writeBatch\<close> skips is counted but not released: after
  \<open>log("info", "x", "ch", make(chan int))\<close> has gone through a worker, the marshalling
  failure is reported and the counter is back at zero, and the pool is still empty.
\<close>

theorem writeBatch_skipped_not_released:
  "run buffer_sink
     [LogGet 0 None example_time, LogLoad 0, LogEnqueue 0, LogAdd 0, Dequeue 0, Tick 0,
      WriteBatch 0]
     (NewLogger 1 [] [(''info'', ''x'', [VStr ''ch'', VChan])] 0)
   = Some \<lparr>writer = new_Writer, queue = [], wg = 0, closed = False, batchSize = 100,
           entryPool = [],
           stderr = [MarshalFailed ErrUnsupportedType], producers = [P_accepted],
           workers = [(W_select, [])], closers = [], panicked = False\<rparr>"
  by (simp add: step_simps wg_Add_def writeBatch_def writeBatch_entry_def marshal_def
      marshal_time_def marshal_map_def bw_Flush_def new_Writer_def report_def example_time_def)

section \<open>The batch writer\<close>



lemma bw_Write_fits:
  "werr w = None \<Longrightarrow> length p \<le> Available w \<Longrightarrow> bw_Write snk w p = (w\<lparr>buf := buf w @ p\<rparr>, None)"
  by (subst bw_Write.simps) simp














section \<open>The life cycle of the logger\<close>

lemma count_update:
  "i < length xs \<Longrightarrow>
     count P (xs[i := y]) + (if P (xs ! i) then 1 else 0) = count P xs + (if P y then 1 else 0)"
  unfolding count_def
proof (induction xs arbitrary: i)
  case Nil
  then show ?case by simp
next
  case (Cons x xs)
  then show ?case by (cases i) auto
qed

lemma count_update_same:
  "i < length xs \<Longrightarrow> P (xs ! i) = P y \<Longrightarrow> count P (xs[i := y]) = count P xs"
  using count_update [of i xs P y] by simp

lemma count_update_inc:
  "i < length xs \<Longrightarrow> \<not> P (xs ! i) \<Longrightarrow> P y \<Longrightarrow> count P (xs[i := y]) = Suc (count P xs)"
  using count_update [of i xs P y] by simp

lemma count_replicate: "count P (replicate n x) = (if P x then n else 0)"
  by (induction n) (auto simp: count_def)

lemma report_frame [simp]:
  "closed (report mk err s) = closed s" "closers (report mk err s) = closers s"
  "producers (report mk err s) = producers s" "workers (report mk err s) = workers s"
  "queue (report mk err s) = queue s" "wg (report mk err s) = wg s"
  "panicked (report mk err s) = panicked s" "writer (report mk err s) = writer s"
  "entryPool (report mk err s) = entryPool s" "batchSize (report mk err s) = batchSize s"
  by (auto simp: report_def split: option.splits)

lemma wg_Add_frame [simp]:
  "closed (wg_Add d s) = closed s" "closers (wg_Add d s) = closers s"
  "producers (wg_Add d s) = producers s" "workers (wg_Add d s) = workers s"
  "queue (wg_Add d s) = queue s" "writer (wg_Add d s) = writer s"
  "entryPool (wg_Add d s) = entryPool s" "stderr (wg_Add d s) = stderr s"
  "batchSize (wg_Add d s) = batchSize s"
  by (auto simp: wg_Add_def Let_def)

lemma writeBatch_entry_frame [simp]:
  "closed (writeBatch_entry snk e s) = closed s" "closers (writeBatch_entry snk e s) = closers s"
  "producers (writeBatch_entry snk e s) = producers s" "workers (writeBatch_entry snk e s) = workers s"
  "queue (writeBatch_entry snk e s) = queue s" "wg (writeBatch_entry snk e s) = wg s"
  "panicked (writeBatch_entry snk e s) = panicked s" "batchSize (writeBatch_entry snk e s) = batchSize s"
  by (auto simp: writeBatch_entry_def Let_def split: sum.splits prod.splits)

lemma fold_writeBatch_entry_frame [simp]:
  "closed (fold (writeBatch_entry snk) b s) = closed s"
  "closers (fold (writeBatch_entry snk) b s) = closers s"
  "producers (fold (writeBatch_entry snk) b s) = producers s"
  "workers (fold (writeBatch_entry snk) b s) = workers s"
  "queue (fold (writeBatch_entry snk) b s) = queue s"
  "wg (fold (writeBatch_entry snk) b s) = wg s"
  "panicked (fold (writeBatch_entry snk) b s) = panicked s"
  "batchSize (fold (writeBatch_entry snk) b s) = batchSize s"
  by (induction b arbitrary: s) simp_all

lemma writeBatch_frame [simp]:
  "closed (writeBatch snk b s) = closed s" "closers (writeBatch snk b s) = closers s"
  "producers (writeBatch snk b s) = producers s" "workers (writeBatch snk b s) = workers s"
  "queue (writeBatch snk b s) = queue s" "batchSize (writeBatch snk b s) = batchSize s"
  by (auto simp: writeBatch_def Let_def split: prod.splits)

lemma set_producer_simps [simp]:
  "producers (set_producer i p s) = (producers s)[i := p]"
  "workers (set_producer i p s) = workers s" "closers (set_producer i p s) = closers s"
  "closed (set_producer i p s) = closed s" "queue (set_producer i p s) = queue s"
  "wg (set_producer i p s) = wg s" "writer (set_producer i p s) = writer s"
  "entryPool (set_producer i p s) = entryPool s" "stderr (set_producer i p s) = stderr s"
  "panicked (set_producer i p s) = panicked s" "batchSize (set_producer i p s) = batchSize s"
  by (simp_all add: set_producer_def)

lemma set_worker_simps [simp]:
  "workers (set_worker i w s) = (workers s)[i := w]"
  "producers (set_worker i w s) = producers s" "closers (set_worker i w s) = closers s"
  "closed (set_worker i w s) = closed s" "queue (set_worker i w s) = queue s"
  "wg (set_worker i w s) = wg s" "writer (set_worker i w s) = writer s"
  "entryPool (set_worker i w s) = entryPool s" "stderr (set_worker i w s) = stderr s"
  "panicked (set_worker i w s) = panicked s" "batchSize (set_worker i w s) = batchSize s"
  by (simp_all add: set_worker_def)

lemma set_closer_simps [simp]:
  "closers (set_closer i c s) = (closers s)[i := c]"
  "producers (set_closer i c s) = producers s" "workers (set_closer i c s) = workers s"
  "closed (set_closer i c s) = closed s" "queue (set_closer i c s) = queue s"
  "wg (set_closer i c s) = wg s" "writer (set_closer i c s) = writer s"
  "entryPool (set_closer i c s) = entryPool s" "stderr (set_closer i c s) = stderr s"
  "panicked (set_closer i c s) = panicked s" "batchSize (set_closer i c s) = batchSize s"
  by (simp_all add: set_closer_def)

lemma producer_at_Some: "producer_at s i = Some p \<longleftrightarrow> i < length (producers s) \<and> producers s ! i = p"
  by (auto simp: producer_at_def)


lemma closer_at_Some: "closer_at s i = Some c \<longleftrightarrow> i < length (closers s) \<and> closers s ! i = c"
  by (auto simp: closer_at_def)

text \<open>What each action needs and does.\<close>

lemma fire_LogGet:
  "fire snk (LogGet i slot now) s = Some s' \<longleftrightarrow>
     \<not> panicked s \<and> (\<exists>level msg kvs e0 pool'. producer_at s i = Some (P_call level msg kvs)
        \<and> pool_Get slot (entryPool s) = Some (e0, pool')
        \<and> s' = set_producer i (P_built (log_build e0 now level msg kvs)) (s\<lparr>entryPool := pool'\<rparr>))"
  by (auto simp: fire_def split: option.splits pstate.splits)

lemma fire_LogLoad:
  "fire snk (LogLoad i) s = Some s' \<longleftrightarrow>
     \<not> panicked s \<and> (\<exists>e. producer_at s i = Some (P_built e)
        \<and> s' = set_producer i (if closed s then P_closed e else P_open e) s)"
  by (auto simp: fire_def split: option.splits pstate.splits)

lemma fire_LogEnqueue:
  "fire snk (LogEnqueue i) s = Some s' \<longleftrightarrow>
     \<not> panicked s \<and> (\<exists>e. producer_at s i = Some (P_open e)
        \<and> s' = set_producer i P_enqueued (s\<lparr>queue := queue s @ [e]\<rparr>))"
  by (auto simp: fire_def split: option.splits pstate.splits)

lemma fire_LogAdd:
  "fire snk (LogAdd i) s = Some s' \<longleftrightarrow>
     \<not> panicked s \<and> producer_at s i = Some P_enqueued
        \<and> s' = set_producer i P_accepted (wg_Add 1 s)"
  by (auto simp: fire_def split: option.splits pstate.splits)

lemma fire_LogPut:
  "fire snk (LogPut i) s = Some s' \<longleftrightarrow>
     \<not> panicked s \<and> (\<exists>e. producer_at s i = Some (P_closed e)
        \<and> s' = set_producer i P_dropped (s\<lparr>entryPool := entryPool s @ [e]\<rparr>))"
  by (auto simp: fire_def split: option.splits pstate.splits)

lemma fire_Tick:
  "fire snk (Tick i) s = Some s' \<longleftrightarrow>
     \<not> panicked s \<and> (\<exists>batch. worker_at s i = Some (W_select, batch)
        \<and> s' = set_worker i (W_write False, batch) s)"
  by (auto simp: fire_def split: option.splits wpc.splits prod.splits)

lemma fire_Dequeue:
  "fire snk (Dequeue i) s = Some s' \<longleftrightarrow>
     \<not> panicked s \<and> (\<exists>batch. worker_at s i = Some (W_select, batch)
        \<and> ((queue s = [] \<and> s' = set_worker i (W_empty, batch) s)
           \<or> (\<exists>entry q. queue s = entry # q
                \<and> s' = set_worker i
                       (if batchSize s \<le> length (batch @ [entry]) then W_write False else W_select,
                        batch @ [entry])
                       (s\<lparr>queue := q\<rparr>))))"
  by (auto simp: fire_def split: option.splits wpc.splits prod.splits list.splits)

lemma fire_LoadClosed:
  "fire snk (LoadClosed i) s = Some s' \<longleftrightarrow>
     \<not> panicked s \<and> (\<exists>batch. worker_at s i = Some (W_empty, batch)
        \<and> s' = set_worker i (if closed s then W_saw_closed else W_select, batch) s)"
  by (auto simp: fire_def split: option.splits wpc.splits prod.splits)

lemma fire_GetLen:
  "fire snk (GetLen i) s = Some s' \<longleftrightarrow>
     \<not> panicked s \<and> (\<exists>batch. worker_at s i = Some (W_saw_closed, batch)
        \<and> s' = set_worker i (if queue s = [] then W_write True else W_select, batch) s)"
  by (auto simp: fire_def split: option.splits wpc.splits prod.splits)

lemma fire_WriteBatch:
  "fire snk (WriteBatch i) s = Some s' \<longleftrightarrow>
     \<not> panicked s \<and> (\<exists>final batch. worker_at s i = Some (W_write final, batch)
        \<and> s' = set_worker i (if final then W_exited else W_select, []) (writeBatch snk batch s))"
  by (auto simp: fire_def split: option.splits wpc.splits prod.splits)

lemma fire_CloseCAS:
  "fire snk (CloseCAS i) s = Some s' \<longleftrightarrow>
     \<not> panicked s \<and> closer_at s i = Some C_call
        \<and> s' = (if closed s then set_closer i C_nil s else set_closer i C_wait (s\<lparr>closed := True\<rparr>))"
  by (auto simp: fire_def split: option.splits cstate.splits)

lemma fire_CloseWait:
  "fire snk (CloseWait i) s = Some s' \<longleftrightarrow>
     \<not> panicked s \<and> closer_at s i = Some C_wait \<and> wg s = 0 \<and> s' = set_closer i C_lock s"
  by (auto simp: fire_def split: option.splits cstate.splits)

lemma fire_CloseFlush:
  "fire snk (CloseFlush i) s = Some s' \<longleftrightarrow>
     \<not> panicked s \<and> closer_at s i = Some C_lock
        \<and> s' = set_closer i (C_flushed (snd (bw_Flush snk (writer s))))
                  (s\<lparr>writer := fst (bw_Flush snk (writer s))\<rparr>)"
  by (auto simp: fire_def split: option.splits cstate.splits prod.splits)

lemmas fire_iffs = fire_LogGet fire_LogLoad fire_LogEnqueue fire_LogAdd fire_LogPut fire_Tick
  fire_Dequeue fire_LoadClosed fire_GetLen fire_WriteBatch fire_CloseCAS fire_CloseWait
  fire_CloseFlush

lemma close_inv_init: "close_inv (NewLogger ncpu pool0 calls ncloses)"
  by (simp add: close_inv_def NewLogger_def count_replicate)

lemma close_inv_closed: "close_inv s \<Longrightarrow> j < length (closers s) \<Longrightarrow> closers s ! j \<noteq> C_call \<Longrightarrow> closed s"
  unfolding close_inv_def by (metis nth_mem)

lemma close_inv_fire:
  assumes "close_inv s" "fire snk a s = Some s'"
  shows "close_inv s'"
proof (cases a)
  case (CloseCAS j)
  then have j: "j < length (closers s)" "closers s ! j = C_call"
    and s': "s' = (if closed s then set_closer j C_nil s else set_closer j C_wait (s\<lparr>closed := True\<rparr>))"
    using assms(2) by (auto simp: fire_CloseCAS closer_at_Some)
  show ?thesis
  proof (cases "closed s")
    case True
    then show ?thesis
      using assms(1) j s' by (simp add: close_inv_def count_update_same)
  next
    case False
    have "\<not> effective (closers s ! j)" using j(2) by simp
    then have "count effective ((closers s)[j := C_wait]) = Suc (count effective (closers s))"
      using count_update_inc [of j "closers s" effective C_wait] j(1) by simp
    then show ?thesis
      using assms(1) s' False by (simp add: close_inv_def)
  qed
next
  case (CloseWait j)
  then have j: "j < length (closers s)" "closers s ! j = C_wait" and s': "s' = set_closer j C_lock s"
    using assms(2) by (auto simp: fire_CloseWait closer_at_Some)
  have "closed s" using close_inv_closed [OF assms(1) j(1)] j(2) by simp
  then show ?thesis
    using assms(1) j s' by (simp add: close_inv_def count_update_same)
next
  case (CloseFlush j)
  then obtain err w where j: "j < length (closers s)" "closers s ! j = C_lock"
    and s': "s' = set_closer j (C_flushed err) (s\<lparr>writer := w\<rparr>)"
    using assms(2) by (auto simp: fire_CloseFlush closer_at_Some)
  have "closed s" using close_inv_closed [OF assms(1) j(1)] j(2) by simp
  then show ?thesis
    using assms(1) j s' by (simp add: close_inv_def count_update_same)
qed (use assms in \<open>auto simp: fire_iffs close_inv_def\<close>)

lemma close_inv_run: "close_inv s \<Longrightarrow> run snk acts s = Some s' \<Longrightarrow> close_inv s'"
proof (induction acts arbitrary: s)
  case Nil
  then show ?case by simp
next
  case (Cons a acts)
  then show ?case by (auto split: option.splits dest: close_inv_fire)
qed







text \<open>
  C10. Once some call of \<open>Close\<close> has made its compare-and-swap, any other call of
  \<open>Close\<close> returns \<open>nil\<close> in its first step: it is enabled whatever the counter is, and
  it leaves the flag, the counter, the writer with its buffer and recorded error, and the
  sink as they are.
\<close>

theorem later_Close_returns_nil:
  assumes "run snk acts (NewLogger ncpu pool0 calls ncloses) = Some s"
      and "k < length (closers s)" "closers s ! k \<noteq> C_call"
      and "j < length (closers s)" "closers s ! j = C_call" "\<not> panicked s"
  shows "fire snk (CloseCAS j) s = Some (s\<lparr>closers := (closers s)[j := C_nil]\<rparr>)
       \<and> close_result C_nil = Some None"
proof -
  have "close_inv s"
    using close_inv_run [OF close_inv_init assms(1)] .
  then have "closed s" using close_inv_closed assms(2,3) by blast
  then show ?thesis using assms(4-6) by (simp add: fire_def closer_at_def set_closer_def)
qed

lemma replicate_2: "replicate 2 x = [x, x]"
  by (simp add: numeral_2_eq_2)

theorem later_Close_returns_nil_witness:
  "\<exists>s. run full_sink
          [LogGet 0 None example_time, LogLoad 0, LogEnqueue 0, LogAdd 0, Dequeue 0, Tick 0,
           WriteBatch 0, CloseCAS 0, CloseWait 0, CloseFlush 0]
          (NewLogger 1 [] [(''info'', ''hello'', [VStr ''key'', VStr ''value''])] 2) = Some s
      \<and> closers s = [C_flushed (Some (ErrSink ''disk full'')), C_call]
      \<and> buf (writer s) \<noteq> []
      \<and> wr_out (writer s) = []
      \<and> fire full_sink (CloseCAS 1) s
          = Some (s\<lparr>closers := [C_flushed (Some (ErrSink ''disk full'')), C_nil]\<rparr>)"
proof -
  let ?acts = "[LogGet 0 None example_time, LogLoad 0, LogEnqueue 0, LogAdd 0, Dequeue 0, Tick 0,
           WriteBatch 0, CloseCAS 0, CloseWait 0, CloseFlush 0]"
  let ?init = "NewLogger 1 [] [(''info'', ''hello'', [VStr ''key'', VStr ''value''])] 2"
  have "\<exists>s. run full_sink ?acts ?init = Some s
      \<and> closers s = [C_flushed (Some (ErrSink ''disk full'')), C_call]
      \<and> buf (writer s) \<noteq> [] \<and> wr_out (writer s) = [] \<and> \<not> panicked s"
    by (simp add: step_simps marshal_simps wg_Add_def writeBatch_def writeBatch_entry_def
        bw_Flush_def bw_Write_fits bw_WriteByte_def sink_Write_def Available_def
        defaultBufferSize_def maxEntrySize_def new_Writer_def report_def full_sink_def
        replicate_2)
  then obtain s where s: "run full_sink ?acts ?init = Some s"
      "closers s = [C_flushed (Some (ErrSink ''disk full'')), C_call]"
      "buf (writer s) \<noteq> []" "wr_out (writer s) = []" "\<not> panicked s"
    by blast
  have "fire full_sink (CloseCAS 1) s = Some (s\<lparr>closers := (closers s)[1 := C_nil]\<rparr>)"
    using later_Close_returns_nil [OF s(1), of 0 1] s(2,5) by simp
  then show ?thesis using s by (intro exI [of _ s]) simp
qed


section \<open>Calls of \<open>log\<close> after shutdown\<close>

lemma closed_fire: "closed s \<Longrightarrow> fire snk a s = Some s' \<Longrightarrow> closed s'"
  by (cases a) (auto simp: fire_iffs)

lemma closed_run: "closed s \<Longrightarrow> run snk acts s = Some s' \<Longrightarrow> closed s'"
proof (induction acts arbitrary: s)
  case Nil
  then show ?case by simp
next
  case (Cons a acts)
  then show ?case by (auto split: option.splits dest: closed_fire)
qed

lemma producers_length_fire: "fire snk a s = Some s' \<Longrightarrow> length (producers s') = length (producers s)"
  by (cases a) (auto simp: fire_iffs)

lemma dropping_fire:
  assumes "closed s" "i < length (producers s)" "dropping (producers s ! i)" "fire snk a s = Some s'"
  shows "dropping (producers s' ! i)"
proof (cases a)
  case (LogGet k slot now)
  then show ?thesis using assms by (cases "k = i") (auto simp: fire_LogGet producer_at_Some)
next
  case (LogLoad k)
  then show ?thesis using assms by (cases "k = i") (auto simp: fire_LogLoad producer_at_Some)
next
  case (LogEnqueue k)
  then show ?thesis using assms by (cases "k = i") (auto simp: fire_LogEnqueue producer_at_Some)
next
  case (LogAdd k)
  then show ?thesis using assms by (cases "k = i") (auto simp: fire_LogAdd producer_at_Some)
next
  case (LogPut k)
  then show ?thesis using assms by (cases "k = i") (auto simp: fire_LogPut producer_at_Some)
qed (use assms in \<open>auto simp: fire_iffs\<close>)

lemma dropping_run:
  "closed s \<Longrightarrow> i < length (producers s) \<Longrightarrow> dropping (producers s ! i) \<Longrightarrow>
     run snk acts s = Some s' \<Longrightarrow> i < length (producers s') \<and> dropping (producers s' ! i)"
proof (induction acts arbitrary: s)
  case Nil
  then show ?case by simp
next
  case (Cons a acts)
  then obtain s1 where s1: "fire snk a s = Some s1" "run snk acts s1 = Some s'"
    by (auto split: option.splits)
  have "closed s1" "i < length (producers s1)" "dropping (producers s1 ! i)"
    using closed_fire [OF Cons.prems(1) s1(1)] producers_length_fire [OF s1(1)]
      dropping_fire [OF Cons.prems(1-3) s1(1)] Cons.prems(2) by simp_all
  then show ?case using Cons.IH s1(2) by blast
qed

text \<open>
  C5. The flag, once set, stays set along every run. After a call of \<open>Close\<close> has returned,
  a call of \<open>log\<close> that has not begun stays, whatever the other goroutines do, on the path
  that ends with the entry put back: it can neither enqueue nor add to the counter, its own
  steps leave the queue, the counter and the writer untouched, and each of them can be
  taken whenever the process has not panicked, so the call is never held up. Run on its
  own, the call changes nothing but the pool and its own state.
\<close>

theorem log_after_Close_is_dropped:
  assumes "run snk acts (NewLogger ncpu pool0 calls ncloses) = Some s"
      and "j < length (closers s)" "close_result (closers s ! j) \<noteq> None"
      and "i < length (producers s)" "producers s ! i = P_call level msg kvs"
      and "run snk acts' s = Some s'"
  shows "closed s \<and> closed s'
       \<and> (\<forall>t acts'' t'. closed t \<and> run snk acts'' t = Some t' \<longrightarrow> closed t')
       \<and> dropping (producers s' ! i)
       \<and> fire snk (LogEnqueue i) s' = None
       \<and> fire snk (LogAdd i) s' = None
       \<and> (\<forall>a s''. a \<in> {LogGet i slot now, LogLoad i, LogPut i} \<and> fire snk a s' = Some s'' \<longrightarrow>
             queue s'' = queue s' \<and> wg s'' = wg s' \<and> writer s'' = writer s')
       \<and> (\<not> panicked s' \<longrightarrow>
             (case producers s' ! i of
                P_call level msg kvs \<Rightarrow> fire snk (LogGet i None now) s' \<noteq> None
              | P_built e \<Rightarrow> fire snk (LogLoad i) s' = Some (set_producer i (P_closed e) s')
              | P_closed e \<Rightarrow>
                  fire snk (LogPut i) s'
                    = Some (set_producer i P_dropped (s'\<lparr>entryPool := entryPool s' @ [e]\<rparr>))
              | _ \<Rightarrow> True))
       \<and> (\<not> panicked s \<longrightarrow>
             run snk [LogGet i None now, LogLoad i, LogPut i] s
               = Some (s\<lparr>entryPool := entryPool s @ [log_build new_entry now level msg kvs],
                         producers := (producers s)[i := P_dropped]\<rparr>))"
proof -
  have "close_inv s" using close_inv_run [OF close_inv_init assms(1)] .
  moreover have "closers s ! j \<noteq> C_call" using assms(3) by auto
  ultimately have c: "closed s" using close_inv_closed assms(2) by blast
  have c': "closed s'" using closed_run [OF c assms(6)] .
  have d: "i < length (producers s')" "dropping (producers s' ! i)"
    using dropping_run [OF c assms(4) _ assms(6)] assms(5) by simp_all
  have e1: "fire snk (LogEnqueue i) s' = None"
    using d by (cases "producers s' ! i") (auto simp: fire_def producer_at_def)
  have e2: "fire snk (LogAdd i) s' = None"
    using d by (cases "producers s' ! i") (auto simp: fire_def producer_at_def)
  have f: "\<forall>a s''. a \<in> {LogGet i slot now, LogLoad i, LogPut i} \<and> fire snk a s' = Some s'' \<longrightarrow>
             queue s'' = queue s' \<and> wg s'' = wg s' \<and> writer s'' = writer s'"
    by (auto simp: fire_iffs)
  have g: "\<not> panicked s' \<longrightarrow>
             (case producers s' ! i of
                P_call level msg kvs \<Rightarrow> fire snk (LogGet i None now) s' \<noteq> None
              | P_built e \<Rightarrow> fire snk (LogLoad i) s' = Some (set_producer i (P_closed e) s')
              | P_closed e \<Rightarrow>
                  fire snk (LogPut i) s'
                    = Some (set_producer i P_dropped (s'\<lparr>entryPool := entryPool s' @ [e]\<rparr>))
              | _ \<Rightarrow> True)"
    using d(1) c' by (auto simp: fire_def producer_at_def pool_Get_def split: pstate.splits)
  have h: "\<not> panicked s \<longrightarrow>
             run snk [LogGet i None now, LogLoad i, LogPut i] s
               = Some (s\<lparr>entryPool := entryPool s @ [log_build new_entry now level msg kvs],
                         producers := (producers s)[i := P_dropped]\<rparr>)"
    using c assms(4,5) by (simp add: fire_def producer_at_def pool_Get_def set_producer_def)
  have m: "\<forall>t acts'' t'. closed t \<and> run snk acts'' t = Some t' \<longrightarrow> closed t'"
    using closed_run by blast
  show ?thesis using c c' m d(2) e1 e2 f g h by blast
qed

theorem log_after_Close_is_dropped_witness:
  "\<exists>s s'. run buffer_sink [CloseCAS 0, CloseWait 0, CloseFlush 0]
             (NewLogger 1 [] [(''info'', ''should not be logged'', [])] 1) = Some s
      \<and> close_result (closers s ! 0) = Some None
      \<and> producers s ! 0 = P_call ''info'' ''should not be logged'' []
      \<and> run buffer_sink [LogGet 0 None example_time, LogLoad 0] s = Some s'
      \<and> closed s'
      \<and> producers s' ! 0
          = P_closed \<lparr>Time = example_time, Level = ''info'', Message = ''should not be logged'',
                      Data = []\<rparr>
      \<and> fire buffer_sink (LogEnqueue 0) s' = None
      \<and> fire buffer_sink (LogPut 0) s' \<noteq> None
      \<and> run buffer_sink [LogGet 0 None example_time, LogLoad 0, LogPut 0] s
          = Some (s\<lparr>entryPool := [log_build new_entry example_time ''info''
                                     ''should not be logged'' []],
                    producers := [P_dropped]\<rparr>)"
proof -
  let ?init = "NewLogger 1 [] [(''info'', ''should not be logged'', [])] 1"
  have "\<exists>s. run buffer_sink [CloseCAS 0, CloseWait 0, CloseFlush 0] ?init = Some s
      \<and> closers s = [C_flushed None]
      \<and> producers s = [P_call ''info'' ''should not be logged'' []]
      \<and> entryPool s = [] \<and> \<not> panicked s \<and> closed s"
    by (simp add: step_simps bw_Flush_def new_Writer_def)
  then obtain s where s: "run buffer_sink [CloseCAS 0, CloseWait 0, CloseFlush 0] ?init = Some s"
      "closers s = [C_flushed None]" "producers s = [P_call ''info'' ''should not be logged'' []]"
      "entryPool s = []" "\<not> panicked s" "closed s"
    by blast
  have "\<exists>s'. run buffer_sink [LogGet 0 None example_time, LogLoad 0] s = Some s'
      \<and> producers s' ! 0
          = P_closed \<lparr>Time = example_time, Level = ''info'', Message = ''should not be logged'',
                      Data = []\<rparr>
      \<and> \<not> panicked s'"
    using s(3,5,6)
    by (simp add: fire_def producer_at_def set_producer_def pool_Get_def log_build_def
        resetEntry_def new_entry_def)
  then obtain s' where s': "run buffer_sink [LogGet 0 None example_time, LogLoad 0] s = Some s'"
      "producers s' ! 0
          = P_closed \<lparr>Time = example_time, Level = ''info'', Message = ''should not be logged'',
                      Data = []\<rparr>" "\<not> panicked s'"
    by blast
  note t = log_after_Close_is_dropped [OF s(1), of 0 0 "''info''" "''should not be logged''" "[]"
      "[LogGet 0 None example_time, LogLoad 0]" s' None example_time]
  have hyp: "0 < length (closers s)" "close_result (closers s ! 0) \<noteq> None"
     "0 < length (producers s)" "producers s ! 0 = P_call ''info'' ''should not be logged'' []"
    using s(2,3) by simp_all
  note t' = t [OF hyp s'(1)]
  have a: "closed s'" "fire buffer_sink (LogEnqueue 0) s' = None" using t' by blast+
  have b: "fire buffer_sink (LogPut 0) s' \<noteq> None" using t' s'(2,3) by simp
  have c: "run buffer_sink [LogGet 0 None example_time, LogLoad 0, LogPut 0] s
          = Some (s\<lparr>entryPool := [log_build new_entry example_time ''info''
                                     ''should not be logged'' []],
                    producers := [P_dropped]\<rparr>)"
    using t' s(3,4,5) by simp
  show ?thesis using s(1,2,3) s'(1,2) a b c
    by (intro exI [of _ s] exI [of _ s']) simp
qed

section \<open>Reading a written line back\<close>

lemma less_16_cases:
  "(k::nat) < 16 \<Longrightarrow> k = 0 \<or> k = 1 \<or> k = 2 \<or> k = 3 \<or> k = 4 \<or> k = 5 \<or> k = 6 \<or> k = 7
     \<or> k = 8 \<or> k = 9 \<or> k = 10 \<or> k = 11 \<or> k = 12 \<or> k = 13 \<or> k = 14 \<or> k = 15"
  by arith

lemma hexval_hex: "k < 16 \<Longrightarrow> hexval (hex ! k) = Some k"
  using less_16_cases [of k] by (auto simp: hex_def hexval_def)

lemma hexval_0: "hexval (CHR ''0'') = Some 0"
  by (simp add: hexval_def)

lemma map_option_cons:
  "map_option (\<lambda>(x, r). (a # x, r)) (map_option (\<lambda>(x, r). (p @ x, r)) y)
     = map_option (\<lambda>(x, r). ((a # p) @ x, r)) y"
  by (cases y) auto

lemma parse_plain:
  "(\<forall>b \<in> set p. plain b) \<Longrightarrow>
     parse_str_body (p @ t) = map_option (\<lambda>(x, r). (p @ x, r)) (parse_str_body t)"
proof (induction p)
  case Nil
  then show ?case by (cases "parse_str_body t") auto
next
  case (Cons a p)
  then show ?case by (simp add: map_option_cons plain_def)
qed

lemma parse_esc_ascii:
  assumes "of_char c < (0x80::nat)"
  shows "parse_str_body (esc_ascii c @ t) = map_option (\<lambda>(x, r). (c # x, r)) (parse_str_body t)"
proof -
  let ?n = "of_char c :: nat"
  have hx: "hexval (hex ! (?n div 16)) = Some (?n div 16)" "hexval (hex ! (?n mod 16)) = Some (?n mod 16)"
    using assms by (simp_all add: hexval_hex)
  have cp: "((0 * 16 + 0) * 16 + ?n div 16) * 16 + ?n mod 16 = ?n" by simp
  have enc: "utf8_encode ?n = [c]" using assms by (simp add: utf8_encode_def)
  have u: "parse_str_body ([bslash, CHR ''u'', CHR ''0'', CHR ''0'', hex ! (?n div 16), hex ! (?n mod 16)] @ t)
           = map_option (\<lambda>(x, r). (c # x, r)) (parse_str_body t)"
    using assms hx enc
    by (cases "parse_str_body t") (auto simp: hexval_0 bslash_def dquote_def)
  show ?thesis
    unfolding esc_ascii_def
    using u assms
    by (auto simp: unescape_def bslash_def dquote_def)
qed

lemma utf8_size_high:
  assumes "utf8_size s = n" "0 < n"
  shows "\<forall>b \<in> set (tl (take n s)). (0x80::nat) \<le> of_char b"
  using assms
  by (cases s rule: utf8_size.cases)
     (auto simp: cont_def Let_def split: if_splits list.splits)

lemma high_plain: "(0x80::nat) \<le> of_char b \<Longrightarrow> plain b"
  by (auto simp: plain_def dquote_def bslash_def)

lemma utf8_size_take:
  assumes "utf8_size (c # cs) = n" "0 < n" "\<not> of_char c < (0x80::nat)"
  shows "\<forall>b \<in> set (take n (c # cs)). plain b"
proof -
  obtain m where m: "n = Suc m" using assms(2) by (cases n) auto
  have "\<forall>b \<in> set (take m cs). (0x80::nat) \<le> of_char b"
    using utf8_size_high [OF assms(1,2)] m by simp
  then have "\<forall>b \<in> set (take n (c # cs)). (0x80::nat) \<le> of_char b"
    using assms(3) m by auto
  then show ?thesis using high_plain by blast
qed

lemma hexval_digits:
  "hexval (CHR ''f'') = Some 15" "hexval (CHR ''d'') = Some 13" "hexval (CHR ''2'') = Some 2"
  "hexval (CHR ''8'') = Some 8" "hexval (CHR ''9'') = Some 9"
  by (simp_all add: hexval_def)

lemma char_of_eq: "of_char c = (n::nat) \<Longrightarrow> char_of n = c"
  by auto

lemma utf8_encode_fffd: "utf8_encode 0xFFFD = [CHR 0xEF, CHR 0xBF, CHR 0xBD]"
  by (simp add: utf8_encode_def char_of_eq)

lemma utf8_encode_2028: "utf8_encode 0x2028 = [CHR 0xE2, CHR 0x80, CHR 0xA8]"
  by (simp add: utf8_encode_def char_of_eq)

lemma utf8_encode_2029: "utf8_encode 0x2029 = [CHR 0xE2, CHR 0x80, CHR 0xA9]"
  by (simp add: utf8_encode_def char_of_eq)

lemma parse_esc_bytes:
  "parse_str_body (esc_bytes s @ dquote # rest) = Some (sanitize s, rest)"
proof (induction s rule: esc_bytes.induct)
  case 1
  then show ?case by simp
next
  case (2 c cs)
  show ?case
  proof (cases "of_char c < (0x80::nat)")
    case True
    then show ?thesis using "2.IH"(1) by (simp add: parse_esc_ascii)
  next
    case high: False
    let ?n = "utf8_size (c # cs)"
    show ?thesis
    proof (cases "?n = 0")
      case True
      then show ?thesis using "2.IH"(2) high
        by (simp add: hexval_digits bslash_def dquote_def utf8_encode_fffd)
    next
      case pos: False
      have pl: "\<forall>b \<in> set (take ?n (c # cs)). plain b"
        using utf8_size_take [of c cs ?n] pos high by simp
      show ?thesis
      proof (cases "take 3 (c # cs) = [CHR 0xE2, CHR 0x80, CHR 0xA8]")
        case True
        then have n3: "?n = 3" "take ?n (c # cs) = [CHR 0xE2, CHR 0x80, CHR 0xA8]"
          by (cases cs rule: utf8_size.cases; auto simp: cont_def Let_def split: list.splits)+
        have "parse_str_body (esc_bytes (drop 2 cs) @ dquote # rest)
                = Some (sanitize (drop 2 cs), rest)"
          using "2.IH"(3) high pos True by blast
        then show ?thesis using True high pos n3
          by (simp add: hexval_digits hexval_0 bslash_def dquote_def utf8_encode_2028)
      next
        case n28: False
        show ?thesis
        proof (cases "take 3 (c # cs) = [CHR 0xE2, CHR 0x80, CHR 0xA9]")
          case True
          then have n3: "?n = 3" "take ?n (c # cs) = [CHR 0xE2, CHR 0x80, CHR 0xA9]"
            by (cases cs rule: utf8_size.cases; auto simp: cont_def Let_def split: list.splits)+
          have "parse_str_body (esc_bytes (drop 2 cs) @ dquote # rest)
                  = Some (sanitize (drop 2 cs), rest)"
            using "2.IH"(4) high pos n28 True by blast
          then show ?thesis using True high pos n28 n3
            by (simp add: hexval_digits hexval_0 bslash_def dquote_def utf8_encode_2029)
        next
          case n29: False
          have x: "parse_str_body (esc_bytes (drop (?n - 1) cs) @ dquote # rest)
                     = Some (sanitize (drop (?n - 1) cs), rest)"
            using "2.IH"(5) high pos n28 n29 by blast
          have e: "esc_bytes (c # cs) = take ?n (c # cs) @ esc_bytes (drop (?n - 1) cs)"
            using high pos n28 n29 by (auto simp: Let_def)
          have s: "sanitize (c # cs) = take ?n (c # cs) @ sanitize (drop (?n - 1) cs)"
            using high pos by (auto simp: Let_def)
          show ?thesis
            unfolding e s
            using parse_plain [OF pl, of "esc_bytes (drop (?n - 1) cs) @ dquote # rest"] x
            by simp
        qed
      qed
    qed
  qed
qed

lemma sanitize_ascii: "(\<forall>c \<in> set s. of_char c < (0x80::nat)) \<Longrightarrow> sanitize s = s"
  by (induction s) simp_all

lemma plain_chars:
  "plain (CHR ''-'')" "plain (CHR '':'')" "plain (CHR ''T'')" "plain (CHR ''Z'')"
  "plain (CHR ''+'')" "plain (CHR ''.'')"
  "plain (CHR ''0'')" "plain (CHR ''1'')" "plain (CHR ''2'')" "plain (CHR ''3'')"
  "plain (CHR ''4'')" "plain (CHR ''5'')" "plain (CHR ''6'')" "plain (CHR ''7'')"
  "plain (CHR ''8'')" "plain (CHR ''9'')"
  by (simp_all add: plain_def dquote_def bslash_def)

lemma digit_plain: "d < 10 \<Longrightarrow> plain (digit d)"
proof -
  assume "d < 10"
  then have "digit d \<in> set ''0123456789''"
    unfolding digit_def by (intro nth_mem) simp
  then show ?thesis using plain_chars by auto
qed

lemma pad2_plain: "\<forall>c \<in> set (pad2 n). plain c"
  by (simp add: pad2_def digit_plain)

lemma pad4_plain: "\<forall>c \<in> set (pad4 n). plain c"
  by (simp add: pad4_def pad2_plain ball_Un)

lemma pad9_plain: "\<forall>c \<in> set (pad9 n). plain c"
  by (simp add: pad9_def pad4_plain digit_plain ball_Un)

lemma fmt_frac_plain: "\<forall>c \<in> set (fmt_frac n). plain c"
proof -
  have "set (dropWhile (\<lambda>c. c = CHR ''0'') (rev (pad9 n))) \<subseteq> set (rev (pad9 n))"
    by (rule set_dropWhileD [THEN subsetI])
  then have "\<forall>c \<in> set (dropWhile (\<lambda>c. c = CHR ''0'') (rev (pad9 n))). plain c"
    using pad9_plain [of n] by auto
  then show ?thesis by (simp add: fmt_frac_def plain_chars)
qed

lemma fmt_zone_plain: "\<forall>c \<in> set (fmt_zone z). plain c"
  by (simp add: fmt_zone_def pad2_plain plain_chars ball_Un)

lemma fmt_time_plain: "\<forall>c \<in> set (fmt_time t). plain c"
  by (simp add: fmt_time_def pad2_plain pad4_plain fmt_frac_plain fmt_zone_plain plain_chars ball_Un)

lemma parse_plain_string:
  "(\<forall>b \<in> set p. plain b) \<Longrightarrow> parse_str_body (p @ dquote # rest) = Some (p, rest)"
  by (simp add: parse_plain)

lemma members_mono:
  "members pv n s = Some x \<Longrightarrow> n \<le> m \<Longrightarrow> members pv m s = Some x"
proof (induction n arbitrary: m s x)
  case 0
  then show ?case by simp
next
  case (Suc n)
  then obtain m' where m: "m = Suc m'" "n \<le> m'" by (cases m) auto
  show ?case
    using Suc.prems(1) Suc.IH [OF _ m(2)] unfolding m(1)
    by (auto split: list.splits option.splits if_splits prod.splits)
qed

lemma parse_objectI:
  "d \<noteq> CHR ''}'' \<Longrightarrow> members pv n (d # r) = Some x \<Longrightarrow> n \<le> length (d # r) \<Longrightarrow>
     parse_object pv (CHR ''{'' # d # r) = Some x"
  using members_mono [of pv n "d # r" x "length (d # r)"]
  by (simp add: parse_object_def del: members.simps)

lemma parse_data_object:
  \<open>parse_object parse_scalar (''{"key":"value"}'' @ rest) = Some ([(''key'', VStr ''value'')], rest)\<close>
proof -
  have m: \<open>members parse_scalar (Suc 0) (''"key":"value"}'' @ rest)
          = Some ([(''key'', VStr ''value'')], rest)\<close>
    by (simp add: dquote_def bslash_def)
  show ?thesis
    using parse_objectI [of "CHR 0x22" parse_scalar "Suc 0" _ "([(''key'', VStr ''value'')], rest)"] m
    by (simp del: members.simps)
qed

lemma parse_entry_line:
  \<open>parse_line (''{"time":"'' @ fmt_time t @ ''","level":"'' @ esc_bytes lv
                 @ ''","message":"'' @ esc_bytes msg @ ''","data":{"key":"value"}}'' @ [newline])
     = Some [(''time'', Scalar (VStr (fmt_time t))),
             (''level'', Scalar (VStr (sanitize lv))),
             (''message'', Scalar (VStr (sanitize msg))),
             (''data'', Object [(''key'', VStr ''value'')])]\<close>
proof -
  let ?fs = "[(''time'', Scalar (VStr (fmt_time t))),
             (''level'', Scalar (VStr (sanitize lv))),
             (''message'', Scalar (VStr (sanitize msg))),
             (''data'', Object [(''key'', VStr ''value'')])]"
  have m: \<open>members parse_field (Suc (Suc (Suc (Suc 0))))
            (''"time":"'' @ fmt_time t @ ''","level":"'' @ esc_bytes lv
                 @ ''","message":"'' @ esc_bytes msg @ ''","data":{"key":"value"}}'' @ [newline])
          = Some (?fs, [newline])\<close>
    using parse_data_object [of "''}'' @ [newline]"]
    by (simp add: parse_field_def bslash_def
          parse_plain_string [OF fmt_time_plain, unfolded dquote_def]
          parse_esc_bytes [unfolded dquote_def] dquote_def)
  have \<open>parse_object parse_field
          (CHR ''{'' # CHR 0x22 # ''time":"'' @ fmt_time t @ ''","level":"'' @ esc_bytes lv
                 @ ''","message":"'' @ esc_bytes msg @ ''","data":{"key":"value"}}'' @ [newline])
        = Some (?fs, [newline])\<close>
    by (rule parse_objectI [where n = "Suc (Suc (Suc (Suc 0)))"]) (use m in simp_all)
  then show ?thesis by (simp add: parse_line_def)
qed

lemma marshal_key_value:
  assumes "Data e = [(''key'', VStr ''value'')]" "0 \<le> tyear (Time e)" "tyear (Time e) \<le> 9999"
  shows \<open>marshal e = Inr (''{"time":"'' @ fmt_time (Time e) @ ''","level":"'' @ esc_bytes (Level e)
                 @ ''","message":"'' @ esc_bytes (Message e) @ ''","data":{"key":"value"}}'')\<close>
  using assms
  by (simp add: marshal_def marshal_time_def marshal_map_def json_string_def esc_ascii_def
      dquote_def bslash_def)

text \<open>
  C8. An entry logged with the pair \<open>"key", "value"\<close> has the mapping \<open>{"key": "value"}\<close>, and
  whenever it is written (its serialization succeeds and fits), the line written for it
  reads back as a record whose \<open>data\<close> is that mapping, whatever the time, the level and the
  message are. Level and message read back as they went in, up to bytes that are not
  well-formed UTF-8, which come back as U+FFFD.
\<close>

theorem logged_mapping_round_trips:
  assumes "\<not> skipped (log_build e0 now level msg [VStr ''key'', VStr ''value''])"
  shows "Data (log_build e0 now level msg [VStr ''key'', VStr ''value''])
            = [(''key'', VStr ''value'')]
       \<and> parse_line (record_of (log_build e0 now level msg [VStr ''key'', VStr ''value'']))
            = Some [(''time'', Scalar (VStr (fmt_time now))),
                    (''level'', Scalar (VStr (sanitize level))),
                    (''message'', Scalar (VStr (sanitize msg))),
                    (''data'', Object [(''key'', VStr ''value'')])]
       \<and> data_of [(''time'', Scalar (VStr (fmt_time now))),
                    (''level'', Scalar (VStr (sanitize level))),
                    (''message'', Scalar (VStr (sanitize msg))),
                    (''data'', Object [(''key'', VStr ''value'')])]
            = Some [(''key'', VStr ''value'')]"
proof -
  let ?e = "log_build e0 now level msg [VStr ''key'', VStr ''value'']"
  have e: "?e = \<lparr>Time = now, Level = level, Message = msg, Data = [(''key'', VStr ''value'')]\<rparr>"
    by (simp add: log_build_fields)
  have year: "0 \<le> tyear now \<and> tyear now \<le> 9999"
  proof (rule ccontr)
    assume "\<not> (0 \<le> tyear now \<and> tyear now \<le> 9999)"
    then have "marshal ?e = Inl ErrYearRange"
      unfolding e by (auto simp: marshal_def marshal_time_def)
    then show False using assms by (simp add: skipped_def)
  qed
  have m: \<open>marshal ?e = Inr (''{"time":"'' @ fmt_time now @ ''","level":"'' @ esc_bytes level
                 @ ''","message":"'' @ esc_bytes msg @ ''","data":{"key":"value"}}'')\<close>
    using marshal_key_value [of ?e] year unfolding e by simp
  have r: \<open>record_of ?e = ''{"time":"'' @ fmt_time now @ ''","level":"'' @ esc_bytes level
                 @ ''","message":"'' @ esc_bytes msg @ ''","data":{"key":"value"}}'' @ [newline]\<close>
    using assms m by (simp add: record_of_def skipped_def)
  have p: "parse_line (record_of ?e)
            = Some [(''time'', Scalar (VStr (fmt_time now))),
                    (''level'', Scalar (VStr (sanitize level))),
                    (''message'', Scalar (VStr (sanitize msg))),
                    (''data'', Object [(''key'', VStr ''value'')])]"
    unfolding r using parse_entry_line [of now level msg] by simp
  have d: "data_of [(''time'', Scalar (VStr (fmt_time now))),
                    (''level'', Scalar (VStr (sanitize level))),
                    (''message'', Scalar (VStr (sanitize msg))),
                    (''data'', Object [(''key'', VStr ''value'')])]
            = Some [(''key'', VStr ''value'')]"
    by (simp add: data_of_def)
  show ?thesis using e p d by simp
qed

theorem logged_mapping_round_trips_witness:
  "\<not> skipped (log_build new_entry example_time ''info'' ''test message''
                  [VStr ''key'', VStr ''value''])
   \<and> parse_line (record_of (log_build new_entry example_time ''info'' ''test message''
                                [VStr ''key'', VStr ''value'']))
       = Some [(''time'', Scalar (VStr ''2024-05-17T09:30:00.12+08:00'')),
               (''level'', Scalar (VStr ''info'')),
               (''message'', Scalar (VStr ''test message'')),
               (''data'', Object [(''key'', VStr ''value'')])]
   \<and> data_of [(''time'', Scalar (VStr ''2024-05-17T09:30:00.12+08:00'')),
               (''level'', Scalar (VStr ''info'')),
               (''message'', Scalar (VStr ''test message'')),
               (''data'', Object [(''key'', VStr ''value'')])]
       = Some [(''key'', VStr ''value'')]"
proof -
  have ns: "\<not> skipped (log_build new_entry example_time ''info'' ''test message''
                  [VStr ''key'', VStr ''value''])"
    by (simp add: skipped_def log_build_fields marshal_simps maxEntrySize_def)
  have t: "fmt_time example_time = ''2024-05-17T09:30:00.12+08:00''"
    by (simp add: marshal_simps)
  have s: "sanitize ''info'' = ''info''" "sanitize ''test message'' = ''test message''"
    by simp_all
  show ?thesis
    using ns logged_mapping_round_trips [OF ns] unfolding t s by simp
qed

section \<open>Every accepted entry reaches the sink\<close>



























subsection \<open>The lines of the sink\<close>

















end
